theory Spec2Isabelle
  imports Main "HOL-Library.Word"
begin

section \<open>The protocol tables and the protocol service\<close>

text \<open>
  The model follows \<^verbatim>\<open>backend/src/services/ProtocolService.ts\<close>, the tables
  \<^verbatim>\<open>protocols\<close> and \<^verbatim>\<open>protocol_runs\<close> of
  \<^verbatim>\<open>kelly-assistant/backend/database/schema.sql\<close> with their constraints, trigger
  and sample rows, and \<^verbatim>\<open>backend/src/handlers/StartProtocolIntentHandler.ts\<close>.

  Every query of the service is one autocommitted SQL statement on the pool, so a
  service function takes the database and returns its result together with the database
  it leaves behind, also when it throws.  What the source draws from its environment is
  a parameter: the value of \<^verbatim>\<open>uuidv4()\<close> and the value of \<^verbatim>\<open>NOW()\<close>
  of each statement.

  Identifiers are values of the SQL type UUID (128 bits); the service receives them as
  text in UUID syntax.  Timestamps are integers (microseconds).  Strings are lists of
  8-bit characters; durations and step numbers are JavaScript numbers with integral
  values, and the durations are added as JavaScript adds them.  A
  table is the list of its rows; where SQL leaves the order of a result open (a select
  without \<^verbatim>\<open>ORDER BY\<close>, ties of an \<^verbatim>\<open>ORDER BY\<close>), the model takes the
  table order, and no theorem below depends on that choice.
\<close>

type_synonym uuid = "128 word"
type_synonym timestamp = int

subsection \<open>The TypeScript interfaces\<close>

datatype timerKind = countdown | stopwatch

record ProtocolStep =
  step :: string
  duration :: int
  instructions :: "string option"
  timerType :: "timerKind option"

text \<open>Interface \<^verbatim>\<open>Protocol\<close>; an optional field is an option.  The field
  \<^verbatim>\<open>id\<close> is named \<open>id_protocol\<close>.\<close>

record Protocol =
  id_protocol :: "uuid option"
  userId :: string
  name :: string
  description :: "string option"
  steps :: "ProtocolStep list"
  totalDuration :: "int option"
  tags :: "string list option"
  isActive :: "bool option"
  lastRun :: "timestamp option"
  runCount :: "int option"
  createdAt :: "timestamp option"
  updatedAt :: "timestamp option"

datatype run_status = in_progress | completed | cancelled

text \<open>The object \<^verbatim>\<open>metadata\<close> that \<^verbatim>\<open>getActiveRun\<close> builds.\<close>

record RunMetadata =
  protocolName :: string
  steps_meta :: "ProtocolStep list"

text \<open>Interface \<^verbatim>\<open>ProtocolRun\<close> as \<^verbatim>\<open>getActiveRun\<close> fills it; the fields
  \<^verbatim>\<open>id\<close>, \<^verbatim>\<open>userId\<close> and \<^verbatim>\<open>notes\<close> carry the suffix \<open>_run\<close>.\<close>

record ProtocolRun =
  id_run :: uuid
  protocolId :: uuid
  userId_run :: string
  startedAt :: timestamp
  completedAt :: "timestamp option"
  status :: run_status
  currentStep :: int
  notes_run :: "string option"
  metadata :: RunMetadata

subsection \<open>The tables\<close>

text \<open>A row of \<^verbatim>\<open>protocols\<close>; the columns carry the prefix \<open>p_\<close>.  A nullable
  column is an option.  \<^verbatim>\<open>total_duration\<close>, \<^verbatim>\<open>tags\<close>, \<^verbatim>\<open>is_active\<close>,
  \<^verbatim>\<open>run_count\<close> and the two timestamps are nullable in the schema, but the service
  never writes NULL to them.\<close>

record protocols_row =
  p_id :: uuid
  p_user_id :: string
  p_name :: string
  p_description :: "string option"
  p_steps :: "ProtocolStep list"
  p_total_duration :: int
  p_tags :: "string list"
  p_is_active :: bool
  p_last_run :: "timestamp option"
  p_run_count :: int
  p_created_at :: timestamp
  p_updated_at :: timestamp

text \<open>A row of \<^verbatim>\<open>protocol_runs\<close>; the columns carry the prefix \<open>r_\<close>.  The column
  \<^verbatim>\<open>metadata\<close> is left out: the service neither writes nor reads it.\<close>

record protocol_runs_row =
  r_id :: uuid
  r_protocol_id :: uuid
  r_user_id :: string
  r_started_at :: timestamp
  r_completed_at :: "timestamp option"
  r_status :: run_status
  r_current_step :: int
  r_notes :: "string option"

text \<open>The database: each table is the list of its rows.\<close>

record db =
  protocols :: "protocols_row list"
  protocol_runs :: "protocol_runs_row list"

definition empty_db :: db where
  "empty_db = \<lparr>protocols = [], protocol_runs = []\<rparr>"

text \<open>What the database can reject a statement of the service with, given the
  schema.\<close>

datatype error =
    UniqueViolation
  | ForeignKeyViolation
  | StringTooLong
  | IntegerOutOfRange
  | InvalidIntegerSyntax

subsection \<open>Column types\<close>

text \<open>Storing into \<^verbatim>\<open>VARCHAR(n)\<close>: a longer string is an error unless the excess
  characters are all spaces, which are cut off.\<close>

definition varchar :: "nat \<Rightarrow> string \<Rightarrow> string option" where
  "varchar n v =
     (if length v \<le> n then Some v
      else if list_all (\<lambda>c. c = CHR '' '') (drop n v) then Some (take n v)
      else None)"

text \<open>The range of \<^verbatim>\<open>INTEGER\<close>.\<close>

definition int4 :: "int \<Rightarrow> bool" where
  "int4 v \<longleftrightarrow> - 2147483648 \<le> v \<and> v \<le> 2147483647"

text \<open>\<^verbatim>\<open>LOWER\<close> on the letters A to Z.\<close>

definition lower_char :: "char \<Rightarrow> char" where
  "lower_char c =
     (if 65 \<le> (of_char c :: nat) \<and> (of_char c :: nat) \<le> 90
      then char_of ((of_char c :: nat) + 32) else c)"

definition LOWER :: "string \<Rightarrow> string" where
  "LOWER v = map lower_char v"

subsection \<open>JavaScript numbers\<close>

text \<open>A JavaScript number is an IEEE double.  The numbers of the model are the doubles
  with an integral value, as integers.  The number of binary digits of a positive
  integer:\<close>

function bitlength :: "int \<Rightarrow> nat" where
  "bitlength n = (if n \<le> 0 then 0 else Suc (bitlength (n div 2)))"
  by pat_completeness auto
termination
  by (relation "measure nat") auto

declare bitlength.simps [simp del]

text \<open>The double nearest to an integer: the integer itself when it has no more than
  53 binary digits; otherwise the digits below the 53 leading ones are rounded away, to
  the nearest, a tie to the even mantissa.\<close>

definition round_double :: "int \<Rightarrow> int" where
  "round_double x =
     (let a = \<bar>x\<bar>;
          e = bitlength a - 53;
          q = a div 2 ^ e;
          r = a mod 2 ^ e;
          m = (if 2 ^ e < 2 * r \<or> (2 * r = 2 ^ e \<and> odd q) then q + 1 else q)
      in sgn x * (m * 2 ^ e))"

text \<open>\<^verbatim>\<open>sum + d\<close> on numbers: the exact sum, rounded; a rounded sum of magnitude
  \<open>2 ^ 1024\<close> or more is \<^verbatim>\<open>Infinity\<close>, and a sum that is
  \<^verbatim>\<open>Infinity\<close> or \<^verbatim>\<open>NaN\<close> stays one of the two whatever finite number is
  added.  \<open>None\<close> stands for these values.\<close>

definition js_add :: "int option \<Rightarrow> int \<Rightarrow> int option" where
  "js_add acc d =
     (case acc of
        None \<Rightarrow> None
      | Some a \<Rightarrow>
          (let r = round_double (a + d)
           in if 2 ^ 1024 \<le> \<bar>r\<bar> then None else Some r))"

text \<open>A number sent as the value of an \<^verbatim>\<open>INTEGER\<close> parameter.  The driver sends
  the text that \<^verbatim>\<open>toString\<close> gives, and the database reads it when it binds the
  parameters, before the statement runs.  \<^verbatim>\<open>Infinity\<close>, \<^verbatim>\<open>NaN\<close> and the
  exponent form, in which numbers from \<open>10 ^ 21\<close> on are written, are no integer
  syntax; other integers outside the range are rejected as out of range.\<close>

definition integer_param :: "int option \<Rightarrow> error + int" where
  "integer_param v =
     (case v of
        None \<Rightarrow> Inl InvalidIntegerSyntax
      | Some t \<Rightarrow>
          if 10 ^ 21 \<le> \<bar>t\<bar> then Inl InvalidIntegerSyntax
          else if int4 t then Inr t
          else Inl IntegerOutOfRange)"

subsection \<open>createProtocol\<close>

text \<open>\<^verbatim>\<open>INSERT ... ON CONFLICT (user_id, name) DO UPDATE SET description, steps,
  total_duration, tags, updated_at = NOW() RETURNING id\<close>.\<close>

definition upsert_set :: "timestamp \<Rightarrow> string option \<Rightarrow> ProtocolStep list \<Rightarrow> int \<Rightarrow>
    string list \<Rightarrow> protocols_row \<Rightarrow> protocols_row" where
  "upsert_set now d st td tg row =
     row\<lparr>p_description := d, p_steps := st, p_total_duration := td,
         p_tags := tg, p_updated_at := now\<rparr>"

definition same_key :: "string \<Rightarrow> string \<Rightarrow> protocols_row \<Rightarrow> bool" where
  "same_key u n row \<longleftrightarrow> p_user_id row = u \<and> p_name row = n"

text \<open>\<^verbatim>\<open>steps.reduce((sum, step) => sum + step.duration, 0)\<close>.\<close>

definition sum_durations :: "ProtocolStep list \<Rightarrow> int option" where
  "sum_durations st = foldl (\<lambda>sum x. js_add sum (duration x)) (Some 0) st"

text \<open>\<^verbatim>\<open>v || null\<close> on an optional string: undefined and the empty string give
  \<^verbatim>\<open>null\<close>.\<close>

definition or_null :: "string option \<Rightarrow> string option" where
  "or_null v = (case v of None \<Rightarrow> None | Some x \<Rightarrow> if x = [] then None else Some x)"

text \<open>\<^verbatim>\<open>protocol.tags || []\<close>.\<close>

definition or_empty :: "string list option \<Rightarrow> string list" where
  "or_empty v = (case v of None \<Rightarrow> [] | Some x \<Rightarrow> x)"

text \<open>The row that the \<^verbatim>\<open>INSERT\<close> proposes; the columns it does not name take
  their defaults.\<close>

definition new_protocols_row ::
    "uuid \<Rightarrow> timestamp \<Rightarrow> string \<Rightarrow> string \<Rightarrow> Protocol \<Rightarrow> int \<Rightarrow> protocols_row" where
  "new_protocols_row newId now u n protocol td =
     \<lparr>p_id = newId, p_user_id = u, p_name = n,
      p_description = or_null (description protocol),
      p_steps = steps protocol, p_total_duration = td,
      p_tags = or_empty (tags protocol), p_is_active = (isActive protocol \<noteq> Some False),
      p_last_run = None, p_run_count = 0, p_created_at = now, p_updated_at = now\<rparr>"

definition createProtocol :: "uuid \<Rightarrow> timestamp \<Rightarrow> Protocol \<Rightarrow> db \<Rightarrow> (error + uuid) \<times> db" where
  "createProtocol newId now protocol s =
     (let totalDuration = sum_durations (steps protocol)
      in case integer_param totalDuration of
           Inl e \<Rightarrow> (Inl e, s)
         | Inr t \<Rightarrow>
        (case varchar 100 (userId protocol) of
           None \<Rightarrow> (Inl StringTooLong, s)
         | Some u \<Rightarrow>
        (case varchar 100 (name protocol) of
           None \<Rightarrow> (Inl StringTooLong, s)
         | Some n \<Rightarrow>
        (case find (same_key u n) (protocols s) of
           Some row \<Rightarrow>
             (Inr (p_id row),
              s\<lparr>protocols :=
                  map (\<lambda>r. if same_key u n r
                            then upsert_set now (or_null (description protocol)) (steps protocol)
                                   t (or_empty (tags protocol)) r
                            else r)
                      (protocols s)\<rparr>)
         | None \<Rightarrow>
             if list_ex (\<lambda>r. p_id r = newId) (protocols s) then (Inl UniqueViolation, s)
             else
               (Inr newId,
                s\<lparr>protocols := protocols s @ [new_protocols_row newId now u n protocol t]\<rparr>)))))"

subsection \<open>getProtocol, listProtocols, deleteProtocol\<close>

definition row_to_Protocol :: "protocols_row \<Rightarrow> Protocol" where
  "row_to_Protocol row =
     \<lparr>id_protocol = Some (p_id row), userId = p_user_id row, name = p_name row,
      description = p_description row, steps = p_steps row,
      totalDuration = Some (p_total_duration row), tags = Some (p_tags row),
      isActive = Some (p_is_active row), lastRun = p_last_run row,
      runCount = Some (p_run_count row), createdAt = Some (p_created_at row),
      updatedAt = Some (p_updated_at row)\<rparr>"

text \<open>\<^verbatim>\<open>WHERE user_id = $1 AND LOWER(name) = LOWER($2) AND is_active = true\<close>; the
  function returns the first row of the result.\<close>

definition getProtocol :: "string \<Rightarrow> string \<Rightarrow> db \<Rightarrow> Protocol option" where
  "getProtocol uid nm s =
     (case filter (\<lambda>r. p_user_id r = uid \<and> LOWER (p_name r) = LOWER nm \<and> p_is_active r)
             (protocols s) of
        [] \<Rightarrow> None
      | row # _ \<Rightarrow> Some (row_to_Protocol row))"

text \<open>\<^verbatim>\<open>ORDER BY run_count DESC, updated_at DESC\<close>: insertion into a list sorted by
  that order.\<close>

definition list_before :: "protocols_row \<Rightarrow> protocols_row \<Rightarrow> bool" where
  "list_before a b \<longleftrightarrow>
     p_run_count a > p_run_count b \<or>
     (p_run_count a = p_run_count b \<and> p_updated_at a \<ge> p_updated_at b)"

fun insert_by :: "('a \<Rightarrow> 'a \<Rightarrow> bool) \<Rightarrow> 'a \<Rightarrow> 'a list \<Rightarrow> 'a list" where
  "insert_by le x [] = [x]"
| "insert_by le x (y # ys) = (if le x y then x # y # ys else y # insert_by le x ys)"

definition order_by :: "('a \<Rightarrow> 'a \<Rightarrow> bool) \<Rightarrow> 'a list \<Rightarrow> 'a list" where
  "order_by le xs = foldr (insert_by le) xs []"

definition listProtocols :: "string \<Rightarrow> db \<Rightarrow> Protocol list" where
  "listProtocols uid s =
     map row_to_Protocol
       (order_by list_before (filter (\<lambda>r. p_user_id r = uid \<and> p_is_active r) (protocols s)))"

text \<open>\<^verbatim>\<open>UPDATE protocols SET is_active = false WHERE id = $1 AND user_id = $2\<close>;
  the trigger sets \<^verbatim>\<open>updated_at\<close>.\<close>

definition deleteProtocol :: "uuid \<Rightarrow> string \<Rightarrow> timestamp \<Rightarrow> db \<Rightarrow> bool \<times> db" where
  "deleteProtocol pid uid now s =
     (list_ex (\<lambda>r. p_id r = pid \<and> p_user_id r = uid) (protocols s),
      s\<lparr>protocols :=
          map (\<lambda>r. if p_id r = pid \<and> p_user_id r = uid
                    then r\<lparr>p_is_active := False, p_updated_at := now\<rparr> else r)
              (protocols s)\<rparr>)"

subsection \<open>startProtocolRun\<close>

text \<open>The first statement, \<^verbatim>\<open>INSERT INTO protocol_runs (id, protocol_id, user_id,
  status, current_step) VALUES ($1, $2, $3, 'in_progress', 0)\<close>; \<^verbatim>\<open>started_at\<close>
  takes its default \<^verbatim>\<open>NOW()\<close>.\<close>

definition new_run_row :: "uuid \<Rightarrow> uuid \<Rightarrow> string \<Rightarrow> timestamp \<Rightarrow> protocol_runs_row" where
  "new_run_row runId pid u now =
     \<lparr>r_id = runId, r_protocol_id = pid, r_user_id = u, r_started_at = now,
      r_completed_at = None, r_status = in_progress, r_current_step = 0, r_notes = None\<rparr>"

definition insert_run :: "uuid \<Rightarrow> uuid \<Rightarrow> string \<Rightarrow> timestamp \<Rightarrow> db \<Rightarrow> error + db" where
  "insert_run runId pid uid now s =
     (case varchar 100 uid of
        None \<Rightarrow> Inl StringTooLong
      | Some u \<Rightarrow>
          if list_ex (\<lambda>r. r_id r = runId) (protocol_runs s) then Inl UniqueViolation
          else if \<not> list_ex (\<lambda>p. p_id p = pid) (protocols s) then Inl ForeignKeyViolation
          else Inr (s\<lparr>protocol_runs := protocol_runs s @ [new_run_row runId pid u now]\<rparr>))"

text \<open>The second statement, \<^verbatim>\<open>UPDATE protocols SET last_run = NOW(), run_count =
  run_count + 1 WHERE id = $1\<close>; the trigger sets \<^verbatim>\<open>updated_at\<close>.\<close>

definition bump_run_count :: "uuid \<Rightarrow> timestamp \<Rightarrow> db \<Rightarrow> error + db" where
  "bump_run_count pid now s =
     (if list_ex (\<lambda>p. p_id p = pid \<and> \<not> int4 (p_run_count p + 1)) (protocols s)
      then Inl IntegerOutOfRange
      else Inr (s\<lparr>protocols :=
             map (\<lambda>p. if p_id p = pid
                       then p\<lparr>p_last_run := Some now, p_run_count := p_run_count p + 1,
                        p_updated_at := now\<rparr>
                       else p)
                 (protocols s)\<rparr>))"

text \<open>Both statements are awaited in one \<^verbatim>\<open>try\<close> block whose \<^verbatim>\<open>catch\<close> throws the
  error again.  \<open>t1\<close> and \<open>t2\<close> are the values of \<^verbatim>\<open>NOW()\<close> in the two statements.\<close>

definition startProtocolRun ::
    "uuid \<Rightarrow> uuid \<Rightarrow> string \<Rightarrow> timestamp \<Rightarrow> timestamp \<Rightarrow> db \<Rightarrow> (error + uuid) \<times> db" where
  "startProtocolRun runId pid uid t1 t2 s =
     (case insert_run runId pid uid t1 s of
        Inl e \<Rightarrow> (Inl e, s)
      | Inr s1 \<Rightarrow>
          (case bump_run_count pid t2 s1 of
             Inl e \<Rightarrow> (Inl e, s1)
           | Inr s2 \<Rightarrow> (Inr runId, s2)))"

subsection \<open>updateProtocolRunStep, completeProtocolRun, cancelProtocolRun\<close>

text \<open>\<^verbatim>\<open>UPDATE protocol_runs SET current_step = $2 WHERE id = $1 RETURNING id\<close>; the
  result is \<^verbatim>\<open>rowCount > 0\<close>.\<close>

definition updateProtocolRunStep :: "uuid \<Rightarrow> int \<Rightarrow> db \<Rightarrow> (error + bool) \<times> db" where
  "updateProtocolRunStep runId stepNumber s =
     (if \<not> int4 stepNumber then (Inl IntegerOutOfRange, s)
      else
        (Inr (length (filter (\<lambda>r. r_id r = runId) (protocol_runs s)) > 0),
         s\<lparr>protocol_runs :=
             map (\<lambda>r. if r_id r = runId then r\<lparr>r_current_step := stepNumber\<rparr> else r)
                 (protocol_runs s)\<rparr>))"

text \<open>\<^verbatim>\<open>UPDATE protocol_runs SET status = 'completed', completed_at = NOW(),
  notes = $2 WHERE id = $1 RETURNING id\<close> with \<^verbatim>\<open>notes || null\<close> for \<^verbatim>\<open>$2\<close>.\<close>

definition completeProtocolRun :: "uuid \<Rightarrow> string option \<Rightarrow> timestamp \<Rightarrow> db \<Rightarrow> bool \<times> db" where
  "completeProtocolRun runId nts now s =
     (length (filter (\<lambda>r. r_id r = runId) (protocol_runs s)) > 0,
      s\<lparr>protocol_runs :=
          map (\<lambda>r. if r_id r = runId
                    then r\<lparr>r_status := completed, r_completed_at := Some now,
                           r_notes := or_null nts\<rparr>
                    else r)
              (protocol_runs s)\<rparr>)"

text \<open>\<^verbatim>\<open>UPDATE protocol_runs SET status = 'cancelled', completed_at = NOW()
  WHERE id = $1 RETURNING id\<close>.\<close>

definition cancelProtocolRun :: "uuid \<Rightarrow> timestamp \<Rightarrow> db \<Rightarrow> bool \<times> db" where
  "cancelProtocolRun runId now s =
     (length (filter (\<lambda>r. r_id r = runId) (protocol_runs s)) > 0,
      s\<lparr>protocol_runs :=
          map (\<lambda>r. if r_id r = runId
                    then r\<lparr>r_status := cancelled, r_completed_at := Some now\<rparr>
                    else r)
              (protocol_runs s)\<rparr>)"

subsection \<open>getActiveRun\<close>

text \<open>\<^verbatim>\<open>FROM protocol_runs pr JOIN protocols p ON pr.protocol_id = p.id\<close>.\<close>

definition run_join :: "db \<Rightarrow> (protocol_runs_row \<times> protocols_row) list" where
  "run_join s =
     concat (map (\<lambda>pr. map (\<lambda>p. (pr, p)) (filter (\<lambda>p. r_protocol_id pr = p_id p) (protocols s)))
                 (protocol_runs s))"

definition started_before :: "protocol_runs_row \<times> protocols_row \<Rightarrow>
    protocol_runs_row \<times> protocols_row \<Rightarrow> bool" where
  "started_before a b \<longleftrightarrow> r_started_at (fst a) \<ge> r_started_at (fst b)"

definition join_to_ProtocolRun :: "protocol_runs_row \<times> protocols_row \<Rightarrow> ProtocolRun" where
  "join_to_ProtocolRun row =
     \<lparr>id_run = r_id (fst row), protocolId = r_protocol_id (fst row),
      userId_run = r_user_id (fst row), startedAt = r_started_at (fst row),
      completedAt = r_completed_at (fst row), status = r_status (fst row),
      currentStep = r_current_step (fst row), notes_run = r_notes (fst row),
      metadata = \<lparr>protocolName = p_name (snd row), steps_meta = p_steps (snd row)\<rparr>\<rparr>"

text \<open>\<^verbatim>\<open>WHERE pr.user_id = $1 AND pr.status = 'in_progress' ORDER BY pr.started_at
  DESC LIMIT 1\<close>.\<close>

definition getActiveRun :: "string \<Rightarrow> db \<Rightarrow> ProtocolRun option" where
  "getActiveRun uid s =
     (case order_by started_before
             (filter (\<lambda>row. r_user_id (fst row) = uid \<and> r_status (fst row) = in_progress)
                     (run_join s)) of
        [] \<Rightarrow> None
      | row # _ \<Rightarrow> Some (join_to_ProtocolRun row))"

subsection \<open>StartProtocolIntentHandler.handle\<close>

text \<open>The request is an intent request with the value of the slot
  \<^verbatim>\<open>protocolName\<close>, or some other request.  The response is the spoken text; the
  model keeps its case and the values spliced into it (for the start: the run id that
  goes into the session attributes, the protocol's name and total duration, the first
  step's label and duration) and leaves out the sentence about the timer.\<close>

datatype request = IntentRequest "string option" | OtherRequest

datatype response =
    CouldNotProcess
  | WhichProtocol
  | NoSuchProtocol string
  | AlreadyRunning string
  | Starting uuid string "int option" string int
  | HadTrouble

text \<open>The owner is the constant \<^verbatim>\<open>'kelly'\<close>.  \<^verbatim>\<open>protocol.steps[0]\<close> of an
  empty list is \<^verbatim>\<open>undefined\<close>, and reading its field \<^verbatim>\<open>step\<close> throws a
  \<^verbatim>\<open>TypeError\<close> inside the \<^verbatim>\<open>try\<close> block, after the run has been started.\<close>

definition handle :: "request \<Rightarrow> uuid \<Rightarrow> timestamp \<Rightarrow> timestamp \<Rightarrow> db \<Rightarrow> response \<times> db" where
  "handle req runId t1 t2 s =
     (case req of
        OtherRequest \<Rightarrow> (CouldNotProcess, s)
      | IntentRequest slot \<Rightarrow>
          (case slot of
             None \<Rightarrow> (WhichProtocol, s)
           | Some pname \<Rightarrow>
               if pname = [] then (WhichProtocol, s)
               else
               (case getProtocol ''kelly'' pname s of
                  None \<Rightarrow> (NoSuchProtocol pname, s)
                | Some protocol \<Rightarrow>
                    (case getActiveRun ''kelly'' s of
                       Some activeRun \<Rightarrow> (AlreadyRunning pname, s)
                     | None \<Rightarrow>
                         (case startProtocolRun runId (the (id_protocol protocol)) ''kelly'' t1 t2 s of
                            (Inl e, s') \<Rightarrow> (HadTrouble, s')
                          | (Inr rid, s') \<Rightarrow>
                              (case steps protocol of
                                 [] \<Rightarrow> (HadTrouble, s')
                               | firstStep # _ \<Rightarrow>
                                   (Starting rid (name protocol) (totalDuration protocol)
                                      (step firstStep) (duration firstStep), s')))))))"

subsection \<open>Constraints of the schema and reachable databases\<close>

text \<open>The constraints that \<^verbatim>\<open>schema.sql\<close> declares on the two tables: the primary
  keys, \<^verbatim>\<open>UNIQUE(user_id, name)\<close> and the foreign key of \<^verbatim>\<open>protocol_id\<close>.\<close>

definition schema_ok :: "db \<Rightarrow> bool" where
  "schema_ok s \<longleftrightarrow>
     distinct (map p_id (protocols s)) \<and>
     distinct (map (\<lambda>r. (p_user_id r, p_name r)) (protocols s)) \<and>
     distinct (map r_id (protocol_runs s)) \<and>
     list_all (\<lambda>run. list_ex (\<lambda>p. p_id p = r_protocol_id run) (protocols s)) (protocol_runs s)"

text \<open>The rows that \<^verbatim>\<open>schema.sql\<close> inserts as sample protocols; their ids are
  generated by the database.\<close>

definition mk_step :: "string \<Rightarrow> int \<Rightarrow> ProtocolStep" where
  "mk_step l d = \<lparr>step = l, duration = d, instructions = None, timerType = None\<rparr>"

definition red_light_steps :: "ProtocolStep list" where
  "red_light_steps =
     [mk_step ''neck'' 3, mk_step ''left cheek'' 3, mk_step ''right cheek'' 3,
      mk_step ''chest'' 5]"

definition morning_steps :: "ProtocolStep list" where
  "morning_steps =
     [mk_step ''meditation'' 10, mk_step ''skincare'' 5, mk_step ''breakfast prep'' 15]"

definition seed_db :: "uuid \<Rightarrow> uuid \<Rightarrow> timestamp \<Rightarrow> db" where
  "seed_db id1 id2 now =
     \<lparr>protocols =
        [\<lparr>p_id = id1, p_user_id = ''kelly'', p_name = ''red light'',
          p_description = Some ''Red light therapy protocol'', p_steps = red_light_steps,
          p_total_duration = 14, p_tags = [''health'', ''therapy'', ''daily''],
          p_is_active = True, p_last_run = None, p_run_count = 0, p_created_at = now,
          p_updated_at = now\<rparr>,
         \<lparr>p_id = id2, p_user_id = ''kelly'', p_name = ''morning routine'',
          p_description = Some ''Standard morning routine'', p_steps = morning_steps,
          p_total_duration = 30, p_tags = [''routine'', ''morning'', ''daily''],
          p_is_active = True, p_last_run = None, p_run_count = 0, p_created_at = now,
          p_updated_at = now\<rparr>],
      protocol_runs = []\<rparr>"

text \<open>The databases that calls of the service produce, from the empty tables or from
  the tables with the sample protocols.\<close>

inductive reachable :: "db \<Rightarrow> bool" where
  reach_empty: "reachable empty_db"
| reach_seed: "id1 \<noteq> id2 \<Longrightarrow> reachable (seed_db id1 id2 now)"
| reach_create: "reachable s \<Longrightarrow> reachable (snd (createProtocol newId now protocol s))"
| reach_delete: "reachable s \<Longrightarrow> reachable (snd (deleteProtocol pid uid now s))"
| reach_start: "reachable s \<Longrightarrow> reachable (snd (startProtocolRun runId pid uid t1 t2 s))"
| reach_step: "reachable s \<Longrightarrow> reachable (snd (updateProtocolRunStep runId stepNumber s))"
| reach_complete: "reachable s \<Longrightarrow> reachable (snd (completeProtocolRun runId nts now s))"
| reach_cancel: "reachable s \<Longrightarrow> reachable (snd (cancelProtocolRun runId now s))"

text \<open>The in-progress runs of an owner, in table order.\<close>

definition active_runs :: "string \<Rightarrow> db \<Rightarrow> protocol_runs_row list" where
  "active_runs uid s =
     filter (\<lambda>r. r_user_id r = uid \<and> r_status r = in_progress) (protocol_runs s)"

subsection \<open>Example data\<close>

definition mk_protocol :: "string \<Rightarrow> string \<Rightarrow> ProtocolStep list \<Rightarrow> Protocol" where
  "mk_protocol u n st =
     \<lparr>id_protocol = None, userId = u, name = n, description = None, steps = st,
      totalDuration = None, tags = None, isActive = None, lastRun = None,
      runCount = None, createdAt = None, updatedAt = None\<rparr>"

text \<open>The database after \<^verbatim>\<open>createProtocol\<close> of "red light" for kelly.\<close>

definition red_light_db :: db where
  "red_light_db = snd (createProtocol 1 1000 (mk_protocol ''kelly'' ''red light'' red_light_steps) empty_db)"

text \<open>The database after kelly has started run 10 of "red light", and after that run
  has been completed with a note.\<close>

definition running_db :: db where
  "running_db = snd (startProtocolRun 10 1 ''kelly'' 3000 3001 red_light_db)"

definition done_db :: db where
  "done_db = snd (completeProtocolRun 10 (Some ''done'') 5000 running_db)"

text \<open>The database after kelly has started a second run, 11, while run 10 is in
  progress.\<close>

definition two_runs_db :: db where
  "two_runs_db = snd (startProtocolRun 11 1 ''kelly'' 4000 4001 running_db)"

text \<open>A database in which the run counter of "red light" has reached the largest
  \<^verbatim>\<open>INTEGER\<close>.\<close>

definition worn_db :: db where
  "worn_db = \<lparr>protocols =
       [\<lparr>p_id = 1, p_user_id = ''kelly'', p_name = ''red light'', p_description = None,
         p_steps = red_light_steps, p_total_duration = 14, p_tags = [], p_is_active = True,
         p_last_run = Some 2000, p_run_count = 2147483647, p_created_at = 1000,
         p_updated_at = 1000\<rparr>],
     protocol_runs = []\<rparr>"

text \<open>The database after "red light" has been run once and then soft-deleted, and
  two definitions that a later \<^verbatim>\<open>createProtocol\<close> is given: one under the same
  name, one under the name in capitals.\<close>

definition deleted_db :: db where
  "deleted_db = snd (deleteProtocol 1 ''kelly'' 5500 done_db)"


definition face_protocol :: Protocol where
  "face_protocol = mk_protocol ''kelly'' ''red light'' [mk_step ''face'' 5]"

definition capital_protocol :: Protocol where
  "capital_protocol = mk_protocol ''kelly'' ''Red Light'' [mk_step ''face'' 5]"

section \<open>Sums of durations\<close>





lemma round_double_nonneg: "0 \<le> x \<Longrightarrow> 0 \<le> round_double x"
  by (simp add: round_double_def Let_def sgn_if pos_imp_zdiv_nonneg_iff)









lemma integer_param_Inr_iff: "integer_param v = Inr t \<longleftrightarrow> v = Some t \<and> int4 t"
  by (auto simp: integer_param_def int4_def split: option.splits)



section \<open>Ordering a result\<close>

lemma set_insert_by: "set (insert_by le x ys) = insert x (set ys)"
  by (induction ys) auto

lemma set_order_by: "set (order_by le xs) = set xs"
  by (induction xs) (auto simp: order_by_def set_insert_by)

lemma order_by_Nil_iff: "order_by le xs = [] \<longleftrightarrow> xs = []"
  using set_order_by [of le xs] by (metis set_empty)

lemma sorted_insert_by:
  assumes tot: "\<And>a b. le a b \<or> le b a" and tr: "\<And>a b c. le a b \<Longrightarrow> le b c \<Longrightarrow> le a c"
  shows "sorted_wrt le ys \<Longrightarrow> sorted_wrt le (insert_by le x ys)"
proof (induction ys)
  case Nil
  then show ?case by simp
next
  case (Cons y ys)
  show ?case
  proof (cases "le x y")
    case True
    with Cons.prems tr show ?thesis by auto
  next
    case False
    with tot have "le y x" by blast
    with Cons False show ?thesis by (auto simp: set_insert_by)
  qed
qed

lemma sorted_order_by:
  assumes tot: "\<And>a b. le a b \<or> le b a" and tr: "\<And>a b c. le a b \<Longrightarrow> le b c \<Longrightarrow> le a c"
  shows "sorted_wrt le (order_by le xs)"
proof (induction xs)
  case Nil
  then show ?case by (simp add: order_by_def)
next
  case (Cons x xs)
  have "order_by le (x # xs) = insert_by le x (order_by le xs)"
    by (simp add: order_by_def)
  with Cons sorted_insert_by [OF tot tr] show ?case by simp
qed

lemma order_by_head_first:
  assumes tot: "\<And>a b. le a b \<or> le b a" and tr: "\<And>a b c. le a b \<Longrightarrow> le b c \<Longrightarrow> le a c"
    and hd: "order_by le xs = y # ys" and mem: "x \<in> set xs"
  shows "le y x"
proof -
  have "sorted_wrt le (y # ys)" using sorted_order_by [of le xs, OF tot tr] hd by simp
  moreover have "x \<in> set (y # ys)" using mem set_order_by [of le xs] hd by simp
  moreover have "le y y" using tot by blast
  ultimately show ?thesis by auto
qed

lemma insert_by_map:
  assumes "\<And>a b. le (g a) (g b) = le a b"
  shows "insert_by le (g x) (map g ys) = map g (insert_by le x ys)"
  by (induction ys) (auto simp: assms)

lemma order_by_map:
  assumes "\<And>a b. le (g a) (g b) = le a b"
  shows "order_by le (map g xs) = map g (order_by le xs)"
proof (induction xs)
  case Nil
  then show ?case by (simp add: order_by_def)
next
  case (Cons x xs)
  have "order_by le (map g (x # xs)) = insert_by le (g x) (order_by le (map g xs))"
    by (simp add: order_by_def)
  also have "\<dots> = map g (insert_by le x (order_by le xs))"
    using Cons insert_by_map [of le g, OF assms] by simp
  finally show ?case by (simp add: order_by_def)
qed

section \<open>createProtocol\<close>

lemma find_SomeD: "find P xs = Some x \<Longrightarrow> x \<in> set xs \<and> P x"
  by (induction xs) (auto split: if_splits)

lemma find_None_list_ex: "find P xs = None \<longleftrightarrow> \<not> list_ex P xs"
  by (induction xs) auto

lemma createProtocol_update:
  assumes "varchar 100 (userId protocol) = Some u" "varchar 100 (name protocol) = Some n"
    and "sum_durations (steps protocol) = Some t" "int4 t"
    and "find (same_key u n) (protocols s) = Some row"
  shows "createProtocol newId now protocol s =
     (Inr (p_id row),
      s\<lparr>protocols :=
          map (\<lambda>r. if same_key u n r
                    then upsert_set now (or_null (description protocol)) (steps protocol)
                           t (or_empty (tags protocol)) r
                    else r)
              (protocols s)\<rparr>)"
proof -
  from assms(3,4) have "integer_param (sum_durations (steps protocol)) = Inr t"
    by (simp add: integer_param_Inr_iff)
  with assms(1,2,5) show ?thesis by (simp add: createProtocol_def)
qed

lemma createProtocol_insert:
  assumes "varchar 100 (userId protocol) = Some u" "varchar 100 (name protocol) = Some n"
    and "sum_durations (steps protocol) = Some t" "int4 t"
    and "find (same_key u n) (protocols s) = None"
    and "\<not> list_ex (\<lambda>r. p_id r = newId) (protocols s)"
  shows "createProtocol newId now protocol s =
     (Inr newId, s\<lparr>protocols := protocols s @ [new_protocols_row newId now u n protocol t]\<rparr>)"
proof -
  from assms(3,4) have "integer_param (sum_durations (steps protocol)) = Inr t"
    by (simp add: integer_param_Inr_iff)
  with assms(1,2,5,6) show ?thesis by (simp add: createProtocol_def)
qed

lemma createProtocol_error_unchanged:
  "fst (createProtocol newId now protocol s) = Inl e \<Longrightarrow>
   snd (createProtocol newId now protocol s) = s"
  by (auto simp: createProtocol_def Let_def split: sum.splits option.splits if_splits)

lemma createProtocol_InrD:
  assumes "fst (createProtocol newId now protocol s) = Inr pid"
  shows "\<exists>u n t. varchar 100 (userId protocol) = Some u \<and> varchar 100 (name protocol) = Some n \<and>
           sum_durations (steps protocol) = Some t \<and> int4 t"
proof -
  from assms obtain t where "integer_param (sum_durations (steps protocol)) = Inr t"
    by (auto simp: createProtocol_def Let_def split: sum.splits)
  moreover from assms obtain u n
    where "varchar 100 (userId protocol) = Some u" "varchar 100 (name protocol) = Some n"
    by (auto simp: createProtocol_def Let_def split: sum.splits option.splits)
  ultimately show ?thesis by (auto simp: integer_param_Inr_iff)
qed


section \<open>The statements of startProtocolRun\<close>

lemma insert_run_ok:
  assumes "varchar 100 uid = Some u"
    and "\<not> list_ex (\<lambda>r. r_id r = runId) (protocol_runs s)"
    and "list_ex (\<lambda>p. p_id p = pid) (protocols s)"
  shows "insert_run runId pid uid t1 s =
           Inr (s\<lparr>protocol_runs := protocol_runs s @ [new_run_row runId pid u t1]\<rparr>)"
  using assms by (simp add: insert_run_def)

lemma insert_run_InrD:
  assumes "insert_run runId pid uid t1 s = Inr s1"
  shows "\<exists>u. varchar 100 uid = Some u \<and>
           \<not> list_ex (\<lambda>r. r_id r = runId) (protocol_runs s) \<and>
           list_ex (\<lambda>p. p_id p = pid) (protocols s) \<and>
           s1 = s\<lparr>protocol_runs := protocol_runs s @ [new_run_row runId pid u t1]\<rparr>"
  using assms by (auto simp: insert_run_def split: option.splits if_splits)

lemma bump_run_count_InrD:
  assumes "bump_run_count pid t2 s1 = Inr s2"
  shows "s2 = s1\<lparr>protocols :=
             map (\<lambda>p. if p_id p = pid
                       then p\<lparr>p_last_run := Some t2, p_run_count := p_run_count p + 1,
                        p_updated_at := t2\<rparr>
                       else p)
                 (protocols s1)\<rparr>"
  using assms by (auto simp: bump_run_count_def split: if_splits)

section \<open>The constraints of the schema are kept\<close>

lemma upsert_set_keeps:
  "p_id (upsert_set now d st td tg r) = p_id r"
  "p_user_id (upsert_set now d st td tg r) = p_user_id r"
  "p_name (upsert_set now d st td tg r) = p_name r"
  "p_is_active (upsert_set now d st td tg r) = p_is_active r"
  "p_last_run (upsert_set now d st td tg r) = p_last_run r"
  "p_run_count (upsert_set now d st td tg r) = p_run_count r"
  "p_created_at (upsert_set now d st td tg r) = p_created_at r"
  by (simp_all add: upsert_set_def)

lemma schema_ok_map_protocols:
  assumes ok: "schema_ok s"
    and id: "\<And>r. p_id (f r) = p_id r"
    and uid: "\<And>r. p_user_id (f r) = p_user_id r"
    and nm: "\<And>r. p_name (f r) = p_name r"
  shows "schema_ok (s\<lparr>protocols := map f (protocols s)\<rparr>)"
  using ok by (simp add: schema_ok_def comp_def id uid nm list_ex_iff)

lemma schema_ok_map_runs:
  assumes ok: "schema_ok s"
    and id: "\<And>r. r_id (f r) = r_id r"
    and pid: "\<And>r. r_protocol_id (f r) = r_protocol_id r"
  shows "schema_ok (s\<lparr>protocol_runs := map f (protocol_runs s)\<rparr>)"
  using ok by (simp add: schema_ok_def comp_def id pid list_all_iff)

lemma schema_ok_insert_protocol:
  assumes ok: "schema_ok s"
    and id: "\<not> list_ex (\<lambda>r. p_id r = p_id row) (protocols s)"
    and key: "\<not> list_ex (same_key (p_user_id row) (p_name row)) (protocols s)"
  shows "schema_ok (s\<lparr>protocols := protocols s @ [row]\<rparr>)"
  using assms
  by (auto simp: schema_ok_def list_ex_iff list_all_iff same_key_def)

lemma schema_ok_insert_run:
  assumes ok: "schema_ok s"
    and id: "\<not> list_ex (\<lambda>r. r_id r = r_id run) (protocol_runs s)"
    and fk: "list_ex (\<lambda>p. p_id p = r_protocol_id run) (protocols s)"
  shows "schema_ok (s\<lparr>protocol_runs := protocol_runs s @ [run]\<rparr>)"
  using assms
  by (auto simp: schema_ok_def list_ex_iff list_all_iff)

lemma createProtocol_schema_ok:
  assumes "schema_ok s"
  shows "schema_ok (snd (createProtocol newId now protocol s))"
proof (cases "fst (createProtocol newId now protocol s)")
  case (Inl e)
  with assms show ?thesis by (simp add: createProtocol_error_unchanged)
next
  case (Inr pid)
  from createProtocol_InrD [OF Inr] obtain u n t
    where u: "varchar 100 (userId protocol) = Some u" and n: "varchar 100 (name protocol) = Some n"
      and t: "sum_durations (steps protocol) = Some t" and i: "int4 t"
    by blast
  show ?thesis
  proof (cases "find (same_key u n) (protocols s)")
    case (Some row)
    show ?thesis
      unfolding createProtocol_update [OF u n t i Some] snd_conv
      by (rule schema_ok_map_protocols [OF assms]) (simp_all add: upsert_set_keeps)
  next
    case None
    show ?thesis
    proof (cases "list_ex (\<lambda>r. p_id r = newId) (protocols s)")
      case True
      from t i have "integer_param (sum_durations (steps protocol)) = Inr t"
        by (simp add: integer_param_Inr_iff)
      with u n None True assms show ?thesis by (simp add: createProtocol_def)
    next
      case False
      from None have "\<not> list_ex (same_key u n) (protocols s)"
        by (simp add: find_None_list_ex)
      with False show ?thesis
        unfolding createProtocol_insert [OF u n t i None False] snd_conv
        by (intro schema_ok_insert_protocol [OF assms]) (simp_all add: new_protocols_row_def)
    qed
  qed
qed

lemma deleteProtocol_schema_ok:
  assumes "schema_ok s"
  shows "schema_ok (snd (deleteProtocol pid uid now s))"
  unfolding deleteProtocol_def snd_conv
  by (rule schema_ok_map_protocols [OF assms]) simp_all

lemma bump_schema_ok:
  assumes "schema_ok s"
  shows "schema_ok (s\<lparr>protocols :=
             map (\<lambda>p. if p_id p = pid
                       then p\<lparr>p_last_run := Some now, p_run_count := p_run_count p + 1,
                        p_updated_at := now\<rparr>
                       else p)
                 (protocols s)\<rparr>)"
  by (rule schema_ok_map_protocols [OF assms]) simp_all

lemma startProtocolRun_schema_ok:
  assumes "schema_ok s"
  shows "schema_ok (snd (startProtocolRun runId pid uid t1 t2 s))"
proof (cases "insert_run runId pid uid t1 s")
  case (Inl e)
  with assms show ?thesis by (simp add: startProtocolRun_def)
next
  case (Inr s1)
  from insert_run_InrD [OF Inr] obtain u
    where fresh: "\<not> list_ex (\<lambda>r. r_id r = runId) (protocol_runs s)"
      and fk: "list_ex (\<lambda>p. p_id p = pid) (protocols s)"
      and s1: "s1 = s\<lparr>protocol_runs := protocol_runs s @ [new_run_row runId pid u t1]\<rparr>"
    by blast
  have ok1: "schema_ok s1"
    unfolding s1 using fresh fk
    by (intro schema_ok_insert_run [OF assms]) (simp_all add: new_run_row_def)
  show ?thesis
  proof (cases "bump_run_count pid t2 s1")
    case (Inl e)
    with Inr ok1 show ?thesis by (simp add: startProtocolRun_def)
  next
    case b: (Inr s2)
    from bump_run_count_InrD [OF b] bump_schema_ok [OF ok1] have "schema_ok s2" by simp
    with Inr b show ?thesis by (simp add: startProtocolRun_def)
  qed
qed

lemma run_updates_schema_ok:
  assumes "schema_ok s"
  shows "schema_ok (snd (updateProtocolRunStep runId n s))"
    and "schema_ok (snd (completeProtocolRun runId nts now s))"
    and "schema_ok (snd (cancelProtocolRun runId now s))"
proof -
  show "schema_ok (snd (updateProtocolRunStep runId n s))"
  proof (cases "int4 n")
    case True
    then show ?thesis
      unfolding updateProtocolRunStep_def
      by (simp del: length_greater_0_conv) (rule schema_ok_map_runs [OF assms], simp_all)
  next
    case False
    with assms show ?thesis by (simp add: updateProtocolRunStep_def)
  qed
  show "schema_ok (snd (completeProtocolRun runId nts now s))"
    unfolding completeProtocolRun_def snd_conv
    by (rule schema_ok_map_runs [OF assms]) simp_all
  show "schema_ok (snd (cancelProtocolRun runId now s))"
    unfolding cancelProtocolRun_def snd_conv
    by (rule schema_ok_map_runs [OF assms]) simp_all
qed

lemma reachable_schema_ok: "reachable s \<Longrightarrow> schema_ok s"
proof (induction rule: reachable.induct)
  case reach_empty
  show ?case by (simp add: empty_db_def schema_ok_def)
next
  case (reach_seed id1 id2 now)
  then show ?case by (simp add: seed_db_def schema_ok_def)
next
  case (reach_create s newId now protocol)
  from reach_create.IH show ?case by (rule createProtocol_schema_ok)
next
  case (reach_delete s pid uid now)
  from reach_delete.IH show ?case by (rule deleteProtocol_schema_ok)
next
  case (reach_start s runId pid uid t1 t2)
  from reach_start.IH show ?case by (rule startProtocolRun_schema_ok)
next
  case (reach_step s runId stepNumber)
  from reach_step.IH show ?case by (rule run_updates_schema_ok)
next
  case (reach_complete s runId nts now)
  from reach_complete.IH show ?case by (rule run_updates_schema_ok)
next
  case (reach_cancel s runId now)
  from reach_cancel.IH show ?case by (rule run_updates_schema_ok)
qed

text \<open>The example databases are produced by the service.\<close>

lemma examples_reachable:
  "reachable red_light_db" "reachable running_db" "reachable done_db"
  "reachable two_runs_db" "reachable deleted_db"
  unfolding deleted_db_def two_runs_db_def done_db_def running_db_def red_light_db_def
  by (intro reach_delete reach_complete reach_start reach_create reach_empty)+

lemma examples_schema_ok:
  "schema_ok red_light_db" "schema_ok running_db" "schema_ok done_db"
  "schema_ok two_runs_db" "schema_ok deleted_db"
  by (rule reachable_schema_ok, rule examples_reachable)+

section \<open>The total duration\<close>







lemma getProtocol_SomeD:
  assumes "getProtocol uid nm s = Some p"
  shows "\<exists>row\<in>set (protocols s). p = row_to_Protocol row \<and> p_user_id row = uid \<and>
           LOWER (p_name row) = LOWER nm \<and> p_is_active row"
proof -
  let ?rows = "filter (\<lambda>r. p_user_id r = uid \<and> LOWER (p_name r) = LOWER nm \<and> p_is_active r) (protocols s)"
  from assms obtain row rest where rows: "?rows = row # rest" and p: "p = row_to_Protocol row"
    by (auto simp: getProtocol_def split: list.splits)
  have "row \<in> set ?rows" using rows by simp
  then show ?thesis using p by auto
qed






section \<open>No validation of the steps\<close>




section \<open>Updates of a run\<close>

lemma map_if_absent: "\<forall>r\<in>set xs. \<not> P r \<Longrightarrow> map (\<lambda>r. if P r then f r else r) xs = xs"
  by (induction xs) auto

text \<open>
  Claim C3, as the code has it.  For a step number in the range of \<^verbatim>\<open>INTEGER\<close>,
  \<^verbatim>\<open>updateProtocolRunStep\<close> returns true exactly when a run with the given id
  exists, and false, leaving the database unchanged, only when none exists.  It sets
  \<^verbatim>\<open>current_step\<close> of the run to the given number whatever the run's status and
  whatever its previous index: there is no check for \<^verbatim>\<open>in_progress\<close>, for
  the successor index or for the number of steps, so the index may skip, decrease or be
  set on a terminal run.  Nothing else changes.
\<close>

theorem updateProtocolRunStep_unconditional:
  assumes "int4 stepNumber"
  shows "fst (updateProtocolRunStep runId stepNumber s) =
           Inr (list_ex (\<lambda>r. r_id r = runId) (protocol_runs s)) \<and>
         (\<not> list_ex (\<lambda>r. r_id r = runId) (protocol_runs s) \<longrightarrow>
            snd (updateProtocolRunStep runId stepNumber s) = s) \<and>
         protocols (snd (updateProtocolRunStep runId stepNumber s)) = protocols s \<and>
         protocol_runs (snd (updateProtocolRunStep runId stepNumber s)) =
           map (\<lambda>r. if r_id r = runId then r\<lparr>r_current_step := stepNumber\<rparr> else r)
               (protocol_runs s) \<and>
         (\<forall>r\<in>set (protocol_runs s). r_id r = runId \<longrightarrow>
            r\<lparr>r_current_step := stepNumber\<rparr>
              \<in> set (protocol_runs (snd (updateProtocolRunStep runId stepNumber s))))"
  using assms
  by (auto simp: updateProtocolRunStep_def list_ex_iff filter_empty_conv map_if_absent)

theorem updateProtocolRunStep_unconditional_witness:
  "int4 3 \<and>
   fst (updateProtocolRunStep 10 3 running_db) = Inr True \<and>
   map r_current_step (protocol_runs (snd (updateProtocolRunStep 10 3 running_db))) = [3]"
proof -
  have i: "int4 3" by (simp add: int4_def)
  have ex: "list_ex (\<lambda>r. r_id r = 10) (protocol_runs running_db)" by code_simp
  have rs: "map r_current_step (protocol_runs running_db) = [0]" by code_simp
  have len: "length (protocol_runs running_db) = 1" by code_simp
  from updateProtocolRunStep_unconditional [OF i, of 10 running_db] ex
  have r: "fst (updateProtocolRunStep 10 3 running_db) = Inr True"
    and m: "protocol_runs (snd (updateProtocolRunStep 10 3 running_db)) =
           map (\<lambda>r. if r_id r = 10 then r\<lparr>r_current_step := 3\<rparr> else r) (protocol_runs running_db)"
    by simp_all
  have "map r_current_step (protocol_runs (snd (updateProtocolRunStep 10 3 running_db))) = [3]"
    unfolding m by code_simp
  with i r show ?thesis by simp
qed

text \<open>
  Claim C3 as stated fails: on a run at index 0 the index 3 is accepted, then the lower
  index 1; on a completed run the index 2 is accepted.
\<close>

theorem updateProtocolRunStep_guard_counterexample:
  "map r_current_step (protocol_runs running_db) = [0] \<and>
   fst (updateProtocolRunStep 10 3 running_db) = Inr True \<and>
   map r_current_step (protocol_runs (snd (updateProtocolRunStep 10 3 running_db))) = [3] \<and>
   fst (updateProtocolRunStep 10 1 (snd (updateProtocolRunStep 10 3 running_db))) = Inr True \<and>
   map r_current_step
     (protocol_runs (snd (updateProtocolRunStep 10 1 (snd (updateProtocolRunStep 10 3 running_db))))) = [1] \<and>
   map r_status (protocol_runs done_db) = [completed] \<and>
   fst (updateProtocolRunStep 10 2 done_db) = Inr True \<and>
   map r_current_step (protocol_runs (snd (updateProtocolRunStep 10 2 done_db))) = [2]"
  by code_simp

text \<open>
  Claim C4, as the code has it.  \<^verbatim>\<open>completeProtocolRun\<close> and
  \<^verbatim>\<open>cancelProtocolRun\<close> return true exactly when a run with the given id exists,
  and false, leaving the database unchanged, only when none exists.  On an existing
  run, terminal or not, they set the status to completed or cancelled and stamp
  \<^verbatim>\<open>completed_at\<close> with the current time; \<^verbatim>\<open>completeProtocolRun\<close> also
  replaces the notes (by null when none or empty notes are given), while
  \<^verbatim>\<open>cancelProtocolRun\<close> keeps them.
\<close>

theorem terminal_transitions_unconditional:
  "fst (completeProtocolRun runId nts now s) = list_ex (\<lambda>r. r_id r = runId) (protocol_runs s) \<and>
   fst (cancelProtocolRun runId now s) = list_ex (\<lambda>r. r_id r = runId) (protocol_runs s) \<and>
   (\<not> list_ex (\<lambda>r. r_id r = runId) (protocol_runs s) \<longrightarrow>
      snd (completeProtocolRun runId nts now s) = s \<and> snd (cancelProtocolRun runId now s) = s) \<and>
   protocol_runs (snd (completeProtocolRun runId nts now s)) =
     map (\<lambda>r. if r_id r = runId
               then r\<lparr>r_status := completed, r_completed_at := Some now, r_notes := or_null nts\<rparr>
               else r)
         (protocol_runs s) \<and>
   protocol_runs (snd (cancelProtocolRun runId now s)) =
     map (\<lambda>r. if r_id r = runId then r\<lparr>r_status := cancelled, r_completed_at := Some now\<rparr> else r)
         (protocol_runs s) \<and>
   (\<forall>r\<in>set (protocol_runs s). r_id r = runId \<longrightarrow>
      r\<lparr>r_status := completed, r_completed_at := Some now, r_notes := or_null nts\<rparr>
        \<in> set (protocol_runs (snd (completeProtocolRun runId nts now s))) \<and>
      r\<lparr>r_status := cancelled, r_completed_at := Some now\<rparr>
        \<in> set (protocol_runs (snd (cancelProtocolRun runId now s))))"
  by (auto simp: completeProtocolRun_def cancelProtocolRun_def list_ex_iff filter_empty_conv map_if_absent)

theorem terminal_transitions_unconditional_witness:
  "list_ex (\<lambda>r. r_id r = 10) (protocol_runs done_db) \<and>
   fst (cancelProtocolRun 10 6000 done_db) = True \<and>
   map r_status (protocol_runs (snd (cancelProtocolRun 10 6000 done_db))) = [cancelled]"
proof -
  have ex: "list_ex (\<lambda>r. r_id r = 10) (protocol_runs done_db)" by code_simp
  from terminal_transitions_unconditional [of 10 None 6000 done_db] ex
  have r: "fst (cancelProtocolRun 10 6000 done_db) = True"
    and m: "protocol_runs (snd (cancelProtocolRun 10 6000 done_db)) =
     map (\<lambda>r. if r_id r = 10 then r\<lparr>r_status := cancelled, r_completed_at := Some 6000\<rparr> else r)
         (protocol_runs done_db)"
    by simp_all
  have "map r_status (protocol_runs (snd (cancelProtocolRun 10 6000 done_db))) = [cancelled]"
    unfolding m by code_simp
  with ex r show ?thesis by simp
qed

text \<open>
  Claim C4 as stated fails: a run completed at time 5000 with the note "done" is
  cancelled at 6000 by \<^verbatim>\<open>cancelProtocolRun\<close>, and completed again at 7000 with its
  note erased by \<^verbatim>\<open>completeProtocolRun\<close>; both calls return true.
\<close>

theorem terminal_run_immutable_counterexample:
  "map r_status (protocol_runs done_db) = [completed] \<and>
   map r_completed_at (protocol_runs done_db) = [Some 5000] \<and>
   map r_notes (protocol_runs done_db) = [Some ''done''] \<and>
   fst (cancelProtocolRun 10 6000 done_db) = True \<and>
   map r_status (protocol_runs (snd (cancelProtocolRun 10 6000 done_db))) = [cancelled] \<and>
   map r_completed_at (protocol_runs (snd (cancelProtocolRun 10 6000 done_db))) = [Some 6000] \<and>
   fst (completeProtocolRun 10 None 7000 done_db) = True \<and>
   map r_completed_at (protocol_runs (snd (completeProtocolRun 10 None 7000 done_db))) = [Some 7000] \<and>
   map r_notes (protocol_runs (snd (completeProtocolRun 10 None 7000 done_db))) = [None]"
  by code_simp

section \<open>The active run\<close>

lemma set_run_join:
  "set (run_join s) =
     {(pr, p). pr \<in> set (protocol_runs s) \<and> p \<in> set (protocols s) \<and> r_protocol_id pr = p_id p}"
  by (auto simp: run_join_def)

lemma started_before_total: "started_before a b \<or> started_before b a"
  by (auto simp: started_before_def)

lemma started_before_trans: "started_before a b \<Longrightarrow> started_before b c \<Longrightarrow> started_before a c"
  by (auto simp: started_before_def)

lemma getActiveRun_None_iff:
  "getActiveRun uid s = None \<longleftrightarrow>
     (\<forall>pr\<in>set (active_runs uid s). \<forall>p\<in>set (protocols s). r_protocol_id pr \<noteq> p_id p)"
proof -
  let ?rows = "filter (\<lambda>row. r_user_id (fst row) = uid \<and> r_status (fst row) = in_progress) (run_join s)"
  have "getActiveRun uid s = None \<longleftrightarrow> order_by started_before ?rows = []"
    by (simp add: getActiveRun_def split: list.splits)
  also have "\<dots> \<longleftrightarrow> ?rows = []" by (rule order_by_Nil_iff)
  also have "\<dots> \<longleftrightarrow> (\<forall>pr\<in>set (active_runs uid s). \<forall>p\<in>set (protocols s). r_protocol_id pr \<noteq> p_id p)"
    by (auto simp: filter_empty_conv set_run_join active_runs_def)
  finally show ?thesis .
qed

lemma getActiveRun_SomeD:
  assumes "getActiveRun uid s = Some run"
  shows "\<exists>pr p. pr \<in> set (active_runs uid s) \<and> p \<in> set (protocols s) \<and>
           r_protocol_id pr = p_id p \<and> run = join_to_ProtocolRun (pr, p) \<and>
           (\<forall>pr'\<in>set (active_runs uid s).
              (\<exists>p'\<in>set (protocols s). r_protocol_id pr' = p_id p') \<longrightarrow>
              r_started_at pr' \<le> r_started_at pr)"
proof -
  let ?rows = "filter (\<lambda>row. r_user_id (fst row) = uid \<and> r_status (fst row) = in_progress) (run_join s)"
  from assms obtain row rest where ord: "order_by started_before ?rows = row # rest"
    and run: "run = join_to_ProtocolRun row"
    by (auto simp: getActiveRun_def split: list.splits)
  have "row \<in> set (order_by started_before ?rows)" using ord by simp
  then have mem: "row \<in> set ?rows" by (simp only: set_order_by)
  obtain pr p where row: "row = (pr, p)" by (cases row)
  from mem row have a: "pr \<in> set (active_runs uid s)" "p \<in> set (protocols s)"
    "r_protocol_id pr = p_id p"
    by (auto simp: set_run_join active_runs_def)
  have latest: "r_started_at pr' \<le> r_started_at pr"
    if "pr' \<in> set (active_runs uid s)" "p' \<in> set (protocols s)" "r_protocol_id pr' = p_id p'"
    for pr' p'
  proof -
    from that have "(pr', p') \<in> set ?rows" by (auto simp: set_run_join active_runs_def)
    from order_by_head_first [of started_before, OF started_before_total started_before_trans ord this]
    show ?thesis using row by (simp add: started_before_def)
  qed
  from a run row latest show ?thesis by blast
qed

lemma schema_ok_fk:
  assumes "schema_ok s" "pr \<in> set (protocol_runs s)"
  shows "\<exists>p\<in>set (protocols s). r_protocol_id pr = p_id p"
proof -
  from assms have "\<exists>p\<in>set (protocols s). p_id p = r_protocol_id pr"
    by (simp add: schema_ok_def list_all_iff list_ex_iff)
  then show ?thesis by metis
qed

lemma active_runs_subset: "set (active_runs uid s) \<subseteq> set (protocol_runs s)"
  by (auto simp: active_runs_def)

lemma getActiveRun_None_schema:
  assumes "schema_ok s"
  shows "getActiveRun uid s = None \<longleftrightarrow> active_runs uid s = []"
proof
  assume n: "getActiveRun uid s = None"
  show "active_runs uid s = []"
  proof (rule ccontr)
    assume "active_runs uid s \<noteq> []"
    then obtain pr where pr: "pr \<in> set (active_runs uid s)" by (cases "active_runs uid s") auto
    with active_runs_subset have "pr \<in> set (protocol_runs s)" by blast
    from schema_ok_fk [OF assms this] obtain p where "p \<in> set (protocols s)" "r_protocol_id pr = p_id p"
      by blast
    with n pr show False by (auto simp: getActiveRun_None_iff)
  qed
next
  assume "active_runs uid s = []"
  then show "getActiveRun uid s = None" by (simp add: getActiveRun_None_iff)
qed

text \<open>
  Claim C9.  In a database that satisfies the schema, if the owner has in-progress
  runs (one or several), \<^verbatim>\<open>getActiveRun\<close> returns a run: it is one of the owner's
  in-progress runs, and no in-progress run of the owner has a later
  \<^verbatim>\<open>started_at\<close>.  The older runs are not reported.
\<close>

theorem getActiveRun_latest:
  assumes "schema_ok s" and "active_runs uid s \<noteq> []"
  shows "\<exists>run. getActiveRun uid s = Some run \<and>
           (\<exists>pr\<in>set (active_runs uid s).
              id_run run = r_id pr \<and> protocolId run = r_protocol_id pr \<and>
              startedAt run = r_started_at pr \<and> currentStep run = r_current_step pr) \<and>
           userId_run run = uid \<and> status run = in_progress \<and>
           (\<forall>pr'\<in>set (active_runs uid s). r_started_at pr' \<le> startedAt run)"
proof -
  from assms have "getActiveRun uid s \<noteq> None" by (simp add: getActiveRun_None_schema)
  then obtain run where run: "getActiveRun uid s = Some run" by blast
  from getActiveRun_SomeD [OF run] obtain pr p
    where pr: "pr \<in> set (active_runs uid s)" and eq: "run = join_to_ProtocolRun (pr, p)"
      and latest: "\<forall>pr'\<in>set (active_runs uid s).
              (\<exists>p'\<in>set (protocols s). r_protocol_id pr' = p_id p') \<longrightarrow>
              r_started_at pr' \<le> r_started_at pr"
    by blast
  have fields: "id_run run = r_id pr" "protocolId run = r_protocol_id pr"
    "startedAt run = r_started_at pr" "currentStep run = r_current_step pr"
    "userId_run run = r_user_id pr" "status run = r_status pr"
    using eq by (simp_all add: join_to_ProtocolRun_def)
  from pr have act: "r_user_id pr = uid" "r_status pr = in_progress"
    by (simp_all add: active_runs_def)
  have "r_started_at pr' \<le> startedAt run" if "pr' \<in> set (active_runs uid s)" for pr'
  proof -
    from that active_runs_subset have "pr' \<in> set (protocol_runs s)" by blast
    from schema_ok_fk [OF assms(1) this] latest that fields show ?thesis by simp
  qed
  with run pr fields act show ?thesis by auto
qed

theorem getActiveRun_latest_witness:
  "schema_ok two_runs_db \<and>
   map r_id (active_runs ''kelly'' two_runs_db) = [10, 11] \<and>
   map r_started_at (active_runs ''kelly'' two_runs_db) = [3000, 4000] \<and>
   map_option id_run (getActiveRun ''kelly'' two_runs_db) = Some 11 \<and>
   map_option startedAt (getActiveRun ''kelly'' two_runs_db) = Some 4000"
proof -
  have ok: "schema_ok two_runs_db" by (rule examples_schema_ok)
  have ids: "map r_id (active_runs ''kelly'' two_runs_db) = [10, 11]" by code_simp
  have ts: "map r_started_at (active_runs ''kelly'' two_runs_db) = [3000, 4000]" by code_simp
  from ids have ne: "active_runs ''kelly'' two_runs_db \<noteq> []" by auto
  from getActiveRun_latest [OF ok ne] obtain run
    where run: "getActiveRun ''kelly'' two_runs_db = Some run"
      and pr: "\<exists>pr\<in>set (active_runs ''kelly'' two_runs_db).
                 id_run run = r_id pr \<and> startedAt run = r_started_at pr"
      and latest: "\<forall>pr'\<in>set (active_runs ''kelly'' two_runs_db). r_started_at pr' \<le> startedAt run"
    by blast
  from latest have "\<forall>t\<in>set (map r_started_at (active_runs ''kelly'' two_runs_db)). t \<le> startedAt run"
    by simp
  then have ge: "4000 \<le> startedAt run" unfolding ts by simp
  from pr obtain pr where mem: "pr \<in> set (active_runs ''kelly'' two_runs_db)"
    and f: "id_run run = r_id pr" "startedAt run = r_started_at pr" by blast
  have "map (\<lambda>r. (r_id r, r_started_at r)) (active_runs ''kelly'' two_runs_db) = [(10, 3000), (11, 4000)]"
    by code_simp
  moreover from mem have "(r_id pr, r_started_at pr) \<in> set (map (\<lambda>r. (r_id r, r_started_at r)) (active_runs ''kelly'' two_runs_db))"
    by simp
  ultimately have "(r_id pr, r_started_at pr) = (10, 3000) \<or> (r_id pr, r_started_at pr) = (11, 4000)"
    by auto
  with ge f have "id_run run = 11 \<and> startedAt run = 4000" by auto
  with run ok ids ts show ?thesis by simp
qed

section \<open>Starting a run\<close>

lemma startProtocolRun_InrD:
  assumes "startProtocolRun runId pid uid t1 t2 s = (Inr rid, s')"
  shows "rid = runId \<and> list_ex (\<lambda>p. p_id p = pid) (protocols s) \<and>
         \<not> list_ex (\<lambda>r. r_id r = runId) (protocol_runs s) \<and>
         protocols s' =
           map (\<lambda>p. if p_id p = pid
                     then p\<lparr>p_last_run := Some t2, p_run_count := p_run_count p + 1,
                        p_updated_at := t2\<rparr>
                     else p)
               (protocols s) \<and>
         (\<exists>u. varchar 100 uid = Some u \<and>
              protocol_runs s' = protocol_runs s @ [new_run_row runId pid u t1])"
proof -
  from assms obtain s1 where i: "insert_run runId pid uid t1 s = Inr s1"
    and b: "bump_run_count pid t2 s1 = Inr s'" and rid: "rid = runId"
    by (auto simp: startProtocolRun_def split: sum.splits)
  from insert_run_InrD [OF i] bump_run_count_InrD [OF b] rid show ?thesis by auto
qed

lemma startProtocolRun_ok:
  assumes u: "varchar 100 uid = Some u"
    and fresh: "\<not> list_ex (\<lambda>r. r_id r = runId) (protocol_runs s)"
    and fk: "list_ex (\<lambda>p. p_id p = pid) (protocols s)"
    and cnt: "list_all (\<lambda>p. p_id p = pid \<longrightarrow> int4 (p_run_count p + 1)) (protocols s)"
  shows "startProtocolRun runId pid uid t1 t2 s =
     (Inr runId,
      \<lparr>protocols =
         map (\<lambda>p. if p_id p = pid
                   then p\<lparr>p_last_run := Some t2, p_run_count := p_run_count p + 1,
                        p_updated_at := t2\<rparr>
                   else p)
             (protocols s),
       protocol_runs = protocol_runs s @ [new_run_row runId pid u t1]\<rparr>)"
proof -
  let ?s1 = "s\<lparr>protocol_runs := protocol_runs s @ [new_run_row runId pid u t1]\<rparr>"
  from cnt have "\<not> list_ex (\<lambda>p. p_id p = pid \<and> \<not> int4 (p_run_count p + 1)) (protocols ?s1)"
    by (auto simp: list_all_iff list_ex_iff)
  then show ?thesis
    using insert_run_ok [OF u fresh fk, of t1]
    by (simp add: startProtocolRun_def bump_run_count_def)
qed

lemma startProtocolRun_states:
  "snd (startProtocolRun runId pid uid t1 t2 s) = s \<or>
   (\<exists>u. varchar 100 uid = Some u \<and>
      protocol_runs (snd (startProtocolRun runId pid uid t1 t2 s)) =
        protocol_runs s @ [new_run_row runId pid u t1])"
  by (auto simp: startProtocolRun_def insert_run_def bump_run_count_def
      split: sum.splits option.splits if_splits)

lemma active_runs_append:
  "protocol_runs s' = protocol_runs s @ [r] \<Longrightarrow>
   active_runs u s' =
     active_runs u s @ (if r_user_id r = u \<and> r_status r = in_progress then [r] else [])"
  by (simp add: active_runs_def)

lemma handle_start_branch:
  "getProtocol ''kelly'' pname s = Some protocol \<Longrightarrow> getActiveRun ''kelly'' s = None \<Longrightarrow>
   pname \<noteq> [] \<Longrightarrow>
   snd (handle (IntentRequest (Some pname)) runId t1 t2 s) =
     snd (startProtocolRun runId (the (id_protocol protocol)) ''kelly'' t1 t2 s)"
  by (simp add: handle_def split: prod.splits sum.splits list.splits)

lemma handle_states:
  "snd (handle req runId t1 t2 s) = s \<or>
   (getActiveRun ''kelly'' s = None \<and>
    (\<exists>pid. snd (handle req runId t1 t2 s) = snd (startProtocolRun runId pid ''kelly'' t1 t2 s)))"
proof (cases req)
  case OtherRequest
  then show ?thesis by (simp add: handle_def)
next
  case (IntentRequest slot)
  show ?thesis
  proof (cases slot)
    case None
    with IntentRequest show ?thesis by (simp add: handle_def)
  next
    case (Some pname)
    show ?thesis
    proof (cases "pname \<noteq> [] \<and> getProtocol ''kelly'' pname s \<noteq> None \<and>
                  getActiveRun ''kelly'' s = None")
      case True
      then obtain protocol where g: "getProtocol ''kelly'' pname s = Some protocol" by blast
      from True have n: "getActiveRun ''kelly'' s = None" and ne: "pname \<noteq> []" by simp_all
      have "snd (handle req runId t1 t2 s) =
              snd (startProtocolRun runId (the (id_protocol protocol)) ''kelly'' t1 t2 s)"
        using handle_start_branch [OF g n ne] IntentRequest Some by simp
      with n show ?thesis by blast
    next
      case False
      with IntentRequest Some have "snd (handle req runId t1 t2 s) = s"
        by (auto simp: handle_def split: option.splits)
      then show ?thesis ..
    qed
  qed
qed

text \<open>
  Claim C1, as the code has it.  \<^verbatim>\<open>startProtocolRun\<close> makes no check for an
  active run, and \<^verbatim>\<open>protocol_runs\<close> has no unique index on the owner: whenever the
  database accepts the two statements (the owner fits \<^verbatim>\<open>VARCHAR(100)\<close>, the run id
  is unused, the protocol exists, its run counter can be incremented), the call
  succeeds and appends an in-progress run at step 0 to the in-progress runs that the
  owner already has, however many these are.  The check is made by
  \<^verbatim>\<open>StartProtocolIntentHandler\<close> alone, before it calls \<^verbatim>\<open>startProtocolRun\<close>:
  on a database that satisfies the schema, a call of the handler keeps kelly at no more
  than one in-progress run, and when kelly has an in-progress run it starts nothing and
  leaves the database as it is.
\<close>

theorem startProtocolRun_ignores_active_runs:
  "(varchar 100 uid = Some u \<and>
    \<not> list_ex (\<lambda>r. r_id r = runId) (protocol_runs s) \<and>
    list_ex (\<lambda>p. p_id p = pid) (protocols s) \<and>
    list_all (\<lambda>p. p_id p = pid \<longrightarrow> int4 (p_run_count p + 1)) (protocols s) \<longrightarrow>
      fst (startProtocolRun runId pid uid t1 t2 s) = Inr runId \<and>
      active_runs u (snd (startProtocolRun runId pid uid t1 t2 s)) =
        active_runs u s @ [new_run_row runId pid u t1]) \<and>
   (schema_ok s \<and> length (active_runs ''kelly'' s) \<le> 1 \<longrightarrow>
      length (active_runs ''kelly'' (snd (handle req runId t1 t2 s))) \<le> 1) \<and>
   (schema_ok s \<and> active_runs ''kelly'' s \<noteq> [] \<longrightarrow>
      snd (handle req runId t1 t2 s) = s \<and>
      (\<forall>rid nm td l d. fst (handle req runId t1 t2 s) \<noteq> Starting rid nm td l d))"
proof (intro conjI impI)
  assume a: "varchar 100 uid = Some u \<and>
    \<not> list_ex (\<lambda>r. r_id r = runId) (protocol_runs s) \<and>
    list_ex (\<lambda>p. p_id p = pid) (protocols s) \<and>
    list_all (\<lambda>p. p_id p = pid \<longrightarrow> int4 (p_run_count p + 1)) (protocols s)"
  then have eq: "startProtocolRun runId pid uid t1 t2 s =
     (Inr runId,
      \<lparr>protocols =
         map (\<lambda>p. if p_id p = pid
                   then p\<lparr>p_last_run := Some t2, p_run_count := p_run_count p + 1,
                        p_updated_at := t2\<rparr>
                   else p)
             (protocols s),
       protocol_runs = protocol_runs s @ [new_run_row runId pid u t1]\<rparr>)"
    using startProtocolRun_ok [of uid u runId s pid t1 t2] by blast
  show "fst (startProtocolRun runId pid uid t1 t2 s) = Inr runId" by (simp add: eq)
  show "active_runs u (snd (startProtocolRun runId pid uid t1 t2 s)) =
        active_runs u s @ [new_run_row runId pid u t1]"
    by (simp add: eq active_runs_def new_run_row_def)
next
  assume a: "schema_ok s \<and> length (active_runs ''kelly'' s) \<le> 1"
  show "length (active_runs ''kelly'' (snd (handle req runId t1 t2 s))) \<le> 1"
  proof (cases "snd (handle req runId t1 t2 s) = s")
    case True
    with a show ?thesis by simp
  next
    case False
    with handle_states [of req runId t1 t2 s] obtain pid
      where none: "getActiveRun ''kelly'' s = None"
        and st: "snd (handle req runId t1 t2 s) = snd (startProtocolRun runId pid ''kelly'' t1 t2 s)"
      by blast
    from none a have empty: "active_runs ''kelly'' s = []"
      by (simp add: getActiveRun_None_schema)
    from False st startProtocolRun_states [of runId pid "''kelly''" t1 t2 s] obtain u
      where "protocol_runs (snd (handle req runId t1 t2 s)) =
               protocol_runs s @ [new_run_row runId pid u t1]"
      by auto
    from active_runs_append [OF this, of "''kelly''"] empty show ?thesis by simp
  qed
next
  assume a: "schema_ok s \<and> active_runs ''kelly'' s \<noteq> []"
  then have some: "getActiveRun ''kelly'' s \<noteq> None" by (simp add: getActiveRun_None_schema)
  with handle_states [of req runId t1 t2 s] show "snd (handle req runId t1 t2 s) = s" by blast
  from some show "\<forall>rid nm td l d. fst (handle req runId t1 t2 s) \<noteq> Starting rid nm td l d"
    by (auto simp: handle_def split: request.splits option.splits)
qed

theorem startProtocolRun_ignores_active_runs_witness:
  "varchar 100 ''kelly'' = Some ''kelly'' \<and>
   \<not> list_ex (\<lambda>r. r_id r = 11) (protocol_runs running_db) \<and>
   list_ex (\<lambda>p. p_id p = 1) (protocols running_db) \<and>
   list_all (\<lambda>p. p_id p = 1 \<longrightarrow> int4 (p_run_count p + 1)) (protocols running_db) \<and>
   schema_ok running_db \<and>
   length (active_runs ''kelly'' running_db) \<le> 1 \<and>
   active_runs ''kelly'' running_db \<noteq> [] \<and>
   fst (startProtocolRun 11 1 ''kelly'' 4000 4001 running_db) = Inr 11 \<and>
   active_runs ''kelly'' (snd (startProtocolRun 11 1 ''kelly'' 4000 4001 running_db)) =
     active_runs ''kelly'' running_db @ [new_run_row 11 1 ''kelly'' 4000] \<and>
   length (active_runs ''kelly''
     (snd (handle (IntentRequest (Some ''red light'')) 11 4000 4001 running_db))) \<le> 1 \<and>
   snd (handle (IntentRequest (Some ''red light'')) 11 4000 4001 running_db) = running_db"
proof -
  have h1: "varchar 100 ''kelly'' = Some ''kelly'' \<and>
     \<not> list_ex (\<lambda>r. r_id r = 11) (protocol_runs running_db) \<and>
     list_ex (\<lambda>p. p_id p = 1) (protocols running_db) \<and>
     list_all (\<lambda>p. p_id p = 1 \<longrightarrow> int4 (p_run_count p + 1)) (protocols running_db)"
    by code_simp
  have "length (active_runs ''kelly'' running_db) \<le> 1" by code_simp
  with examples_schema_ok(2)
  have h2: "schema_ok running_db \<and> length (active_runs ''kelly'' running_db) \<le> 1"
    by simp
  have "active_runs ''kelly'' running_db \<noteq> []" by code_simp
  with examples_schema_ok(2)
  have h3: "schema_ok running_db \<and> active_runs ''kelly'' running_db \<noteq> []"
    by simp
  from startProtocolRun_ignores_active_runs
         [of "''kelly''" "''kelly''" 11 running_db 1 4000 4001 "IntentRequest (Some ''red light'')"]
       h1 h2 h3
  show ?thesis by blast
qed

text \<open>
  Claim C1 as stated fails: while run 10 of kelly is in progress, a second
  \<^verbatim>\<open>startProtocolRun\<close> for kelly returns the new id 11 and leaves two in-progress
  runs.
\<close>

theorem one_active_run_counterexample:
  "map r_id (active_runs ''kelly'' running_db) = [10] \<and>
   fst (startProtocolRun 11 1 ''kelly'' 4000 4001 running_db) = Inr 11 \<and>
   map r_id (active_runs ''kelly'' (snd (startProtocolRun 11 1 ''kelly'' 4000 4001 running_db))) =
     [10, 11]"
  by code_simp

text \<open>
  Claim C7, as the code has it.  A successful \<^verbatim>\<open>startProtocolRun\<close> has inserted
  the run, incremented \<^verbatim>\<open>run_count\<close> of the referenced protocol by one and set its
  \<^verbatim>\<open>last_run\<close> to the time of the update.  The update is not best-effort: it is
  awaited in the same \<^verbatim>\<open>try\<close> block, so when it fails after the insert, the call
  throws that error although the run row stays in the table.  This happens when the
  counter is at the largest \<^verbatim>\<open>INTEGER\<close>.
\<close>

theorem startProtocolRun_bookkeeping:
  "(\<forall>rid s'. startProtocolRun runId pid uid t1 t2 s = (Inr rid, s') \<longrightarrow>
      rid = runId \<and> list_ex (\<lambda>p. p_id p = pid) (protocols s) \<and>
      protocols s' =
        map (\<lambda>p. if p_id p = pid
                  then p\<lparr>p_last_run := Some t2, p_run_count := p_run_count p + 1,
                        p_updated_at := t2\<rparr>
                  else p)
            (protocols s) \<and>
      (\<exists>u. varchar 100 uid = Some u \<and>
           protocol_runs s' = protocol_runs s @ [new_run_row runId pid u t1])) \<and>
   (\<forall>s1 e. insert_run runId pid uid t1 s = Inr s1 \<and> bump_run_count pid t2 s1 = Inl e \<longrightarrow>
      startProtocolRun runId pid uid t1 t2 s = (Inl e, s1) \<and>
      (\<exists>u. varchar 100 uid = Some u \<and>
           protocol_runs s1 = protocol_runs s @ [new_run_row runId pid u t1])) \<and>
   (varchar 100 uid = Some u \<and>
    \<not> list_ex (\<lambda>r. r_id r = runId) (protocol_runs s) \<and>
    list_ex (\<lambda>p. p_id p = pid \<and> p_run_count p = 2147483647) (protocols s) \<longrightarrow>
      startProtocolRun runId pid uid t1 t2 s =
        (Inl IntegerOutOfRange,
         s\<lparr>protocol_runs := protocol_runs s @ [new_run_row runId pid u t1]\<rparr>))"
proof (intro conjI allI impI)
  fix rid s' assume ok: "startProtocolRun runId pid uid t1 t2 s = (Inr rid, s')"
  from startProtocolRun_InrD [OF ok]
  show "rid = runId" and "list_ex (\<lambda>p. p_id p = pid) (protocols s)"
    and "protocols s' =
        map (\<lambda>p. if p_id p = pid
                  then p\<lparr>p_last_run := Some t2, p_run_count := p_run_count p + 1,
                        p_updated_at := t2\<rparr>
                  else p)
            (protocols s)"
    and "\<exists>u. varchar 100 uid = Some u \<and>
           protocol_runs s' = protocol_runs s @ [new_run_row runId pid u t1]"
    by simp_all
next
  fix s1 e assume a: "insert_run runId pid uid t1 s = Inr s1 \<and> bump_run_count pid t2 s1 = Inl e"
  then show "startProtocolRun runId pid uid t1 t2 s = (Inl e, s1)"
    by (simp add: startProtocolRun_def)
  from a insert_run_InrD [of runId pid uid t1 s s1]
  show "\<exists>u. varchar 100 uid = Some u \<and>
           protocol_runs s1 = protocol_runs s @ [new_run_row runId pid u t1]"
    by auto
next
  assume a: "varchar 100 uid = Some u \<and>
    \<not> list_ex (\<lambda>r. r_id r = runId) (protocol_runs s) \<and>
    list_ex (\<lambda>p. p_id p = pid \<and> p_run_count p = 2147483647) (protocols s)"
  then have fk: "list_ex (\<lambda>p. p_id p = pid) (protocols s)"
    by (auto simp: list_ex_iff)
  let ?s1 = "s\<lparr>protocol_runs := protocol_runs s @ [new_run_row runId pid u t1]\<rparr>"
  from a fk have i: "insert_run runId pid uid t1 s = Inr ?s1"
    using insert_run_ok [of uid u runId s pid t1] by blast
  from a have "list_ex (\<lambda>p. p_id p = pid \<and> \<not> int4 (p_run_count p + 1)) (protocols ?s1)"
    by (auto simp: list_ex_iff int4_def)
  then have "bump_run_count pid t2 ?s1 = Inl IntegerOutOfRange"
    by (simp add: bump_run_count_def)
  with i show "startProtocolRun runId pid uid t1 t2 s = (Inl IntegerOutOfRange, ?s1)"
    by (simp add: startProtocolRun_def)
qed

theorem startProtocolRun_bookkeeping_witness:
  "fst (startProtocolRun 10 1 ''kelly'' 3000 3001 red_light_db) = Inr 10 \<and>
   map p_run_count (protocols red_light_db) = [0] \<and>
   map p_run_count (protocols (snd (startProtocolRun 10 1 ''kelly'' 3000 3001 red_light_db))) = [1] \<and>
   map p_last_run (protocols (snd (startProtocolRun 10 1 ''kelly'' 3000 3001 red_light_db))) = [Some 3001] \<and>
   varchar 100 ''kelly'' = Some ''kelly'' \<and>
   \<not> list_ex (\<lambda>r. r_id r = 10) (protocol_runs worn_db) \<and>
   list_ex (\<lambda>p. p_id p = 1 \<and> p_run_count p = 2147483647) (protocols worn_db) \<and>
   startProtocolRun 10 1 ''kelly'' 3000 3001 worn_db =
     (Inl IntegerOutOfRange,
      worn_db\<lparr>protocol_runs := protocol_runs worn_db @ [new_run_row 10 1 ''kelly'' 3000]\<rparr>)"
proof -
  obtain res s' where eq: "startProtocolRun 10 1 ''kelly'' 3000 3001 red_light_db = (res, s')"
    by (cases "startProtocolRun 10 1 ''kelly'' 3000 3001 red_light_db")
  have r: "fst (startProtocolRun 10 1 ''kelly'' 3000 3001 red_light_db) = Inr 10" by code_simp
  with eq have eq': "startProtocolRun 10 1 ''kelly'' 3000 3001 red_light_db = (Inr 10, s')" by simp
  have c0: "map p_run_count (protocols red_light_db) = [0]" by code_simp
  have ids: "map p_id (protocols red_light_db) = [1]" by code_simp
  from startProtocolRun_bookkeeping [of 10 1 "''kelly''" 3000 3001 red_light_db] eq'
  have "protocols s' =
        map (\<lambda>p. if p_id p = 1
                  then p\<lparr>p_last_run := Some 3001, p_run_count := p_run_count p + 1,
                        p_updated_at := 3001\<rparr>
                  else p)
            (protocols red_light_db)"
    by blast
  then have "map p_run_count (protocols s') =
               map (\<lambda>p. if p_id p = 1 then p_run_count p + 1 else p_run_count p) (protocols red_light_db)"
    and "map p_last_run (protocols s') =
               map (\<lambda>p. if p_id p = 1 then Some 3001 else p_last_run p) (protocols red_light_db)"
    by simp_all
  moreover have "map (\<lambda>p. if p_id p = 1 then p_run_count p + 1 else p_run_count p) (protocols red_light_db) = [1]"
    by code_simp
  moreover have "map (\<lambda>p. if p_id p = 1 then Some 3001 else p_last_run p) (protocols red_light_db) = [Some 3001]"
    by code_simp
  ultimately have c1: "map p_run_count (protocols (snd (startProtocolRun 10 1 ''kelly'' 3000 3001 red_light_db))) = [1]"
    and l1: "map p_last_run (protocols (snd (startProtocolRun 10 1 ''kelly'' 3000 3001 red_light_db))) = [Some 3001]"
    using eq' by simp_all
  have h: "varchar 100 ''kelly'' = Some ''kelly'' \<and>
     \<not> list_ex (\<lambda>r. r_id r = 10) (protocol_runs worn_db) \<and>
     list_ex (\<lambda>p. p_id p = 1 \<and> p_run_count p = 2147483647) (protocols worn_db)"
    by code_simp
  with startProtocolRun_bookkeeping [of 10 1 "''kelly''" 3000 3001 worn_db "''kelly''"]
  have w: "startProtocolRun 10 1 ''kelly'' 3000 3001 worn_db =
     (Inl IntegerOutOfRange,
      worn_db\<lparr>protocol_runs := protocol_runs worn_db @ [new_run_row 10 1 ''kelly'' 3000]\<rparr>)"
    by blast
  from r c0 c1 l1 h w show ?thesis by simp
qed

text \<open>
  Claim C7 as stated fails: with the run counter at 2147483647 the insert is done, the
  update is rejected, the call throws, and run 10 is left in progress.
\<close>

theorem best_effort_bookkeeping_counterexample:
  "fst (startProtocolRun 10 1 ''kelly'' 3000 3001 worn_db) = Inl IntegerOutOfRange \<and>
   map r_id (protocol_runs (snd (startProtocolRun 10 1 ''kelly'' 3000 3001 worn_db))) = [10] \<and>
   map r_status (protocol_runs (snd (startProtocolRun 10 1 ''kelly'' 3000 3001 worn_db))) = [in_progress] \<and>
   map p_run_count (protocols (snd (startProtocolRun 10 1 ''kelly'' 3000 3001 worn_db))) = [2147483647]"
  by code_simp

section \<open>createProtocol on an existing row\<close>

lemma distinct_key_unique:
  assumes "schema_ok s" "row \<in> set (protocols s)" "r \<in> set (protocols s)"
    and "p_user_id r = p_user_id row" "p_name r = p_name row"
  shows "r = row"
proof -
  from assms(1) have "distinct (map (\<lambda>r. (p_user_id r, p_name r)) (protocols s))"
    by (simp add: schema_ok_def)
  then have "inj_on (\<lambda>r. (p_user_id r, p_name r)) (set (protocols s))"
    by (simp add: distinct_map)
  with assms(2-5) show ?thesis by (auto dest: inj_onD)
qed

lemma distinct_id_unique:
  assumes "schema_ok s" "row \<in> set (protocols s)" "r \<in> set (protocols s)"
    and "p_id r = p_id row"
  shows "r = row"
proof -
  from assms(1) have "distinct (map p_id (protocols s))"
    by (simp add: schema_ok_def)
  then have "inj_on p_id (set (protocols s))"
    by (simp add: distinct_map)
  with assms(2-4) show ?thesis by (auto dest: inj_onD)
qed

lemma find_key_row:
  assumes "schema_ok s" "row \<in> set (protocols s)"
  shows "find (same_key (p_user_id row) (p_name row)) (protocols s) = Some row"
proof (cases "find (same_key (p_user_id row) (p_name row)) (protocols s)")
  case None
  with assms(2) show ?thesis by (auto simp: find_None_iff same_key_def)
next
  case (Some r)
  from find_SomeD [OF Some] have "r \<in> set (protocols s)" "same_key (p_user_id row) (p_name row) r"
    by simp_all
  with distinct_key_unique [OF assms, of r] Some show ?thesis by (simp add: same_key_def)
qed

lemma createProtocol_on_existing:
  assumes ok: "schema_ok s"
    and u: "varchar 100 (userId protocol) = Some (p_user_id row)"
    and n: "varchar 100 (name protocol) = Some (p_name row)"
    and t: "sum_durations (steps protocol) = Some td"
    and i: "int4 td"
    and row: "row \<in> set (protocols s)"
  shows "createProtocol newId now protocol s =
     (Inr (p_id row),
      s\<lparr>protocols :=
          map (\<lambda>r. if r = row
                    then row\<lparr>p_description := or_null (description protocol),
                             p_steps := steps protocol,
                             p_total_duration := td,
                             p_tags := or_empty (tags protocol),
                             p_updated_at := now\<rparr>
                    else r)
              (protocols s)\<rparr>)"
proof -
  have "same_key (p_user_id row) (p_name row) r \<longleftrightarrow> r = row" if "r \<in> set (protocols s)" for r
    using distinct_key_unique [OF ok row that] by (auto simp: same_key_def)
  then have "map (\<lambda>r. if same_key (p_user_id row) (p_name row) r
                    then upsert_set now (or_null (description protocol)) (steps protocol)
                           td (or_empty (tags protocol)) r
                    else r) (protocols s) =
             map (\<lambda>r. if r = row
                    then row\<lparr>p_description := or_null (description protocol),
                             p_steps := steps protocol,
                             p_total_duration := td,
                             p_tags := or_empty (tags protocol),
                             p_updated_at := now\<rparr>
                    else r) (protocols s)"
    by (intro map_cong) (auto simp: upsert_set_def)
  with createProtocol_update [OF u n t i find_key_row [OF ok row], of newId now]
  show ?thesis by simp
qed

lemma listProtocols_D:
  assumes "p \<in> set (listProtocols uid s)"
  shows "\<exists>row\<in>set (protocols s). p = row_to_Protocol row \<and> p_user_id row = uid \<and> p_is_active row"
  using assms by (auto simp: listProtocols_def set_order_by)

text \<open>
  Claim C10.  In a database that satisfies the schema, when \<^verbatim>\<open>createProtocol\<close> is
  given the user id and name of an existing row, it returns that row's id and replaces
  in that row alone the description, the steps, the total duration, the tags and
  \<^verbatim>\<open>updated_at\<close>; the id, the run counter, \<^verbatim>\<open>last_run\<close>, the active flag and
  \<^verbatim>\<open>created_at\<close> stay, whatever the given \<^verbatim>\<open>isActive\<close> is, and no other row
  and no run changes.  So a soft-deleted protocol that is created again stays inactive:
  neither \<^verbatim>\<open>getProtocol\<close> nor \<^verbatim>\<open>listProtocols\<close> returns it.
\<close>

theorem createProtocol_upsert_frame:
  assumes ok: "schema_ok s"
    and u: "varchar 100 (userId protocol) = Some (p_user_id row)"
    and n: "varchar 100 (name protocol) = Some (p_name row)"
    and t: "sum_durations (steps protocol) = Some td"
    and i: "int4 td"
    and row: "row \<in> set (protocols s)"
  shows "createProtocol newId now protocol s =
     (Inr (p_id row),
      s\<lparr>protocols :=
          map (\<lambda>r. if r = row
                    then row\<lparr>p_description := or_null (description protocol),
                             p_steps := steps protocol,
                             p_total_duration := td,
                             p_tags := or_empty (tags protocol),
                             p_updated_at := now\<rparr>
                    else r)
              (protocols s)\<rparr>) \<and>
    (\<exists>row'\<in>set (protocols (snd (createProtocol newId now protocol s))).
       p_id row' = p_id row \<and> p_user_id row' = p_user_id row \<and> p_name row' = p_name row \<and>
       p_run_count row' = p_run_count row \<and> p_last_run row' = p_last_run row \<and>
       p_is_active row' = p_is_active row \<and> p_created_at row' = p_created_at row \<and>
       p_description row' = or_null (description protocol) \<and> p_steps row' = steps protocol \<and>
       p_total_duration row' = td \<and>
       p_tags row' = or_empty (tags protocol) \<and> p_updated_at row' = now) \<and>
    (\<not> p_is_active row \<longrightarrow>
       (\<forall>uid nm p. getProtocol uid nm (snd (createProtocol newId now protocol s)) = Some p \<longrightarrow>
          id_protocol p \<noteq> Some (p_id row)) \<and>
       (\<forall>uid. \<forall>p\<in>set (listProtocols uid (snd (createProtocol newId now protocol s))).
          id_protocol p \<noteq> Some (p_id row)))"
proof -
  let ?row' = "row\<lparr>p_description := or_null (description protocol),
                   p_steps := steps protocol,
                   p_total_duration := td,
                   p_tags := or_empty (tags protocol),
                   p_updated_at := now\<rparr>"
  let ?s' = "snd (createProtocol newId now protocol s)"
  note eq = createProtocol_on_existing [OF ok u n t i row, of newId now]
  have ps: "protocols ?s' = map (\<lambda>r. if r = row then ?row' else r) (protocols s)"
    by (simp add: eq)
  have mem: "?row' \<in> set (protocols ?s')"
    unfolding ps using row by force
  have only: "r' = ?row'" if "r' \<in> set (protocols ?s')" "p_id r' = p_id row" for r'
  proof -
    from that(1) obtain r where r: "r \<in> set (protocols s)" and r': "r' = (if r = row then ?row' else r)"
      unfolding ps by auto
    show ?thesis
    proof (cases "r = row")
      case True
      with r' show ?thesis by simp
    next
      case False
      with r' that(2) have "p_id r = p_id row" by simp
      from distinct_id_unique [OF ok row r this] False show ?thesis by simp
    qed
  qed
  have hidden_get: "id_protocol p \<noteq> Some (p_id row)"
    if "\<not> p_is_active row" "getProtocol uid nm ?s' = Some p" for uid nm p
  proof
    assume id: "id_protocol p = Some (p_id row)"
    from getProtocol_SomeD [OF that(2)] obtain r'
      where r': "r' \<in> set (protocols ?s')" "p = row_to_Protocol r'" "p_is_active r'" by blast
    with id have "p_id r' = p_id row" by (simp add: row_to_Protocol_def)
    from only [OF r'(1) this] r'(3) that(1) show False by simp
  qed
  have hidden_list: "id_protocol p \<noteq> Some (p_id row)"
    if "\<not> p_is_active row" "p \<in> set (listProtocols uid ?s')" for uid p
  proof
    assume id: "id_protocol p = Some (p_id row)"
    from listProtocols_D [OF that(2)] obtain r'
      where r': "r' \<in> set (protocols ?s')" "p = row_to_Protocol r'" "p_is_active r'" by blast
    with id have "p_id r' = p_id row" by (simp add: row_to_Protocol_def)
    from only [OF r'(1) this] r'(3) that(1) show False by simp
  qed
  have fields: "p_id ?row' = p_id row \<and> p_user_id ?row' = p_user_id row \<and> p_name ?row' = p_name row \<and>
       p_run_count ?row' = p_run_count row \<and> p_last_run ?row' = p_last_run row \<and>
       p_is_active ?row' = p_is_active row \<and> p_created_at ?row' = p_created_at row \<and>
       p_description ?row' = or_null (description protocol) \<and> p_steps ?row' = steps protocol \<and>
       p_total_duration ?row' = td \<and>
       p_tags ?row' = or_empty (tags protocol) \<and> p_updated_at ?row' = now"
    by simp
  from mem fields have ex: "\<exists>row'\<in>set (protocols ?s').
       p_id row' = p_id row \<and> p_user_id row' = p_user_id row \<and> p_name row' = p_name row \<and>
       p_run_count row' = p_run_count row \<and> p_last_run row' = p_last_run row \<and>
       p_is_active row' = p_is_active row \<and> p_created_at row' = p_created_at row \<and>
       p_description row' = or_null (description protocol) \<and> p_steps row' = steps protocol \<and>
       p_total_duration row' = td \<and>
       p_tags row' = or_empty (tags protocol) \<and> p_updated_at row' = now"
    by (rule rev_bexI)
  from eq ex hidden_get hidden_list show ?thesis by blast
qed

theorem createProtocol_upsert_frame_witness:
  "schema_ok deleted_db \<and>
   varchar 100 (userId face_protocol) = Some (p_user_id (hd (protocols deleted_db))) \<and>
   varchar 100 (name face_protocol) = Some (p_name (hd (protocols deleted_db))) \<and>
   sum_durations (steps face_protocol) = Some 5 \<and>
   int4 5 \<and>
   hd (protocols deleted_db) \<in> set (protocols deleted_db) \<and>
   \<not> p_is_active (hd (protocols deleted_db)) \<and>
   p_run_count (hd (protocols deleted_db)) = 1 \<and>
   fst (createProtocol 2 6000 face_protocol deleted_db) = Inr 1 \<and>
   map p_is_active (protocols (snd (createProtocol 2 6000 face_protocol deleted_db))) = [False] \<and>
   map p_run_count (protocols (snd (createProtocol 2 6000 face_protocol deleted_db))) = [1] \<and>
   map p_steps (protocols (snd (createProtocol 2 6000 face_protocol deleted_db))) = [[mk_step ''face'' 5]] \<and>
   getProtocol ''kelly'' ''red light'' (snd (createProtocol 2 6000 face_protocol deleted_db)) = None"
proof -
  let ?row = "hd (protocols deleted_db)"
  let ?s' = "snd (createProtocol 2 6000 face_protocol deleted_db)"
  have ok: "schema_ok deleted_db" by (rule examples_schema_ok)
  have u: "varchar 100 (userId face_protocol) = Some (p_user_id ?row)" by code_simp
  have n: "varchar 100 (name face_protocol) = Some (p_name ?row)" by code_simp
  have t: "sum_durations (steps face_protocol) = Some 5" by code_simp
  have i: "int4 5" by (simp add: int4_def)
  have single: "protocols deleted_db = [?row]" by code_simp
  then have row: "?row \<in> set (protocols deleted_db)" by (metis list.set_intros(1))
  have inactive: "\<not> p_is_active ?row" by code_simp
  have cnt: "p_run_count ?row = 1" by code_simp
  have id: "p_id ?row = 1" by code_simp
  have st: "steps face_protocol = [mk_step ''face'' 5]" by code_simp
  note frame = createProtocol_upsert_frame [OF ok u n t i row, of 2 6000]
  from frame id have res: "fst (createProtocol 2 6000 face_protocol deleted_db) = Inr 1"
    by simp
  have ps: "protocols ?s' =
      map (\<lambda>r. if r = ?row
                then ?row\<lparr>p_description := or_null (description face_protocol),
                          p_steps := steps face_protocol,
                          p_total_duration := 5,
                          p_tags := or_empty (tags face_protocol),
                          p_updated_at := 6000\<rparr>
                else r)
          (protocols deleted_db)"
    using frame by simp
  have ps1: "protocols ?s' =
      [?row\<lparr>p_description := or_null (description face_protocol),
             p_steps := steps face_protocol,
             p_total_duration := 5,
             p_tags := or_empty (tags face_protocol),
             p_updated_at := 6000\<rparr>]"
    by (subst ps, subst single) simp
  have a: "map p_is_active (protocols ?s') = [False]" using inactive by (simp add: ps1)
  have b: "map p_run_count (protocols ?s') = [1]" using cnt by (simp add: ps1)
  have c: "map p_steps (protocols ?s') = [[mk_step ''face'' 5]]" using st by (simp add: ps1)
  have hidden: "\<forall>uid nm p. getProtocol uid nm ?s' = Some p \<longrightarrow> id_protocol p \<noteq> Some (p_id ?row)"
    using frame inactive by blast
  have d: "getProtocol ''kelly'' ''red light'' ?s' = None"
  proof (cases "getProtocol ''kelly'' ''red light'' ?s'")
    case None
    then show ?thesis .
  next
    case (Some p)
    from getProtocol_SomeD [OF Some] obtain r where "r \<in> set (protocols ?s')" "p = row_to_Protocol r"
      by blast
    then have "id_protocol p = Some (p_id ?row)" by (simp add: ps1 row_to_Protocol_def)
    with hidden Some show ?thesis by blast
  qed
  from ok u n t i row inactive cnt res a b c d show ?thesis by simp
qed

text \<open>
  Claim C6, as the code has it.  The key of the upsert is \<^verbatim>\<open>(user_id, name)\<close>
  with the name compared exactly, as \<^verbatim>\<open>UNIQUE(user_id, name)\<close> declares it.  In a
  database that satisfies the schema, \<^verbatim>\<open>createProtocol\<close> with the user id and
  exactly the name of an existing row, active or not, revises that row and returns its
  id, and the ids and names in the table stay as they are; with a name that no row of
  the owner has exactly, and an unused id, it appends a new row, also when the name
  equals an existing name up to letter case.  The constraints of the schema hold
  afterwards.
\<close>

theorem createProtocol_exact_name_key:
  assumes ok: "schema_ok s"
    and u: "varchar 100 (userId protocol) = Some u"
    and n: "varchar 100 (name protocol) = Some n"
    and t: "sum_durations (steps protocol) = Some td"
    and i: "int4 td"
  shows "(\<forall>row\<in>set (protocols s). p_user_id row = u \<and> p_name row = n \<longrightarrow>
           fst (createProtocol newId now protocol s) = Inr (p_id row) \<and>
           map p_id (protocols (snd (createProtocol newId now protocol s))) = map p_id (protocols s) \<and>
           map p_name (protocols (snd (createProtocol newId now protocol s))) = map p_name (protocols s)) \<and>
         ((\<forall>row\<in>set (protocols s). \<not> (p_user_id row = u \<and> p_name row = n)) \<and>
          \<not> list_ex (\<lambda>r. p_id r = newId) (protocols s) \<longrightarrow>
            createProtocol newId now protocol s =
              (Inr newId, s\<lparr>protocols := protocols s @ [new_protocols_row newId now u n protocol td]\<rparr>)) \<and>
         schema_ok (snd (createProtocol newId now protocol s))"
proof -
  have upd: "fst (createProtocol newId now protocol s) = Inr (p_id row) \<and>
           map p_id (protocols (snd (createProtocol newId now protocol s))) = map p_id (protocols s) \<and>
           map p_name (protocols (snd (createProtocol newId now protocol s))) = map p_name (protocols s)"
    if row: "row \<in> set (protocols s)" and key: "p_user_id row = u \<and> p_name row = n" for row
  proof -
    from find_key_row [OF ok row] key have f: "find (same_key u n) (protocols s) = Some row" by simp
    note eq = createProtocol_update [OF u n t i f, of newId now]
    show ?thesis by (simp add: eq comp_def upsert_set_keeps)
  qed
  have ins: "createProtocol newId now protocol s =
              (Inr newId, s\<lparr>protocols := protocols s @ [new_protocols_row newId now u n protocol td]\<rparr>)"
    if a: "(\<forall>row\<in>set (protocols s). \<not> (p_user_id row = u \<and> p_name row = n)) \<and>
          \<not> list_ex (\<lambda>r. p_id r = newId) (protocols s)"
  proof -
    from a have f: "find (same_key u n) (protocols s) = None"
      by (auto simp: find_None_iff same_key_def)
    from a have fresh: "\<not> list_ex (\<lambda>r. p_id r = newId) (protocols s)" by simp
    show ?thesis by (rule createProtocol_insert [OF u n t i f fresh])
  qed
  have "schema_ok (snd (createProtocol newId now protocol s))"
    using ok by (rule createProtocol_schema_ok)
  with upd ins show ?thesis by blast
qed

theorem createProtocol_exact_name_key_witness:
  "schema_ok red_light_db \<and>
   varchar 100 (userId capital_protocol) = Some ''kelly'' \<and>
   varchar 100 (name capital_protocol) = Some ''Red Light'' \<and>
   sum_durations (steps capital_protocol) = Some 5 \<and>
   int4 5 \<and>
   list_all (\<lambda>row. \<not> (p_user_id row = ''kelly'' \<and> p_name row = ''Red Light'')) (protocols red_light_db) \<and>
   \<not> list_ex (\<lambda>r. p_id r = 2) (protocols red_light_db) \<and>
   map LOWER (map p_name (protocols red_light_db)) = [LOWER ''Red Light''] \<and>
   createProtocol 2 2000 capital_protocol red_light_db =
     (Inr 2, red_light_db\<lparr>protocols := protocols red_light_db @
        [new_protocols_row 2 2000 ''kelly'' ''Red Light'' capital_protocol 5]\<rparr>) \<and>
   schema_ok (snd (createProtocol 2 2000 capital_protocol red_light_db)) \<and>
   fst (createProtocol 2 2000 face_protocol red_light_db) = Inr 1"
proof -
  have ok: "schema_ok red_light_db" by (rule examples_schema_ok)
  have u: "varchar 100 (userId capital_protocol) = Some ''kelly''" by code_simp
  have n: "varchar 100 (name capital_protocol) = Some ''Red Light''" by code_simp
  have t: "sum_durations (steps capital_protocol) = Some 5" by code_simp
  have i: "int4 5" by (simp add: int4_def)
  have no: "list_all (\<lambda>row. \<not> (p_user_id row = ''kelly'' \<and> p_name row = ''Red Light'')) (protocols red_light_db)"
    by code_simp
  have fresh: "\<not> list_ex (\<lambda>r. p_id r = 2) (protocols red_light_db)" by code_simp
  have low: "map LOWER (map p_name (protocols red_light_db)) = [LOWER ''Red Light'']" by code_simp
  note inst = createProtocol_exact_name_key [OF ok u n t i, of 2 2000]
  from no have "\<forall>row\<in>set (protocols red_light_db). \<not> (p_user_id row = ''kelly'' \<and> p_name row = ''Red Light'')"
    by (simp add: list_all_iff)
  with inst fresh have ins: "createProtocol 2 2000 capital_protocol red_light_db =
     (Inr 2, red_light_db\<lparr>protocols := protocols red_light_db @
        [new_protocols_row 2 2000 ''kelly'' ''Red Light'' capital_protocol 5]\<rparr>)"
    by blast
  from inst have ok': "schema_ok (snd (createProtocol 2 2000 capital_protocol red_light_db))" by blast
  have u2: "varchar 100 (userId face_protocol) = Some ''kelly''" by code_simp
  have n2: "varchar 100 (name face_protocol) = Some ''red light''" by code_simp
  have t2: "sum_durations (steps face_protocol) = Some 5" by code_simp
  have single: "protocols red_light_db = [hd (protocols red_light_db)]" by code_simp
  have key: "p_user_id (hd (protocols red_light_db)) = ''kelly'' \<and>
             p_name (hd (protocols red_light_db)) = ''red light'' \<and> p_id (hd (protocols red_light_db)) = 1"
    by code_simp
  from single have "hd (protocols red_light_db) \<in> set (protocols red_light_db)"
    by (metis list.set_intros(1))
  with createProtocol_exact_name_key [OF ok u2 n2 t2 i, of 2 2000] key
  have upd: "fst (createProtocol 2 2000 face_protocol red_light_db) = Inr 1" by fastforce
  from ok u n t i no fresh low ins ok' upd show ?thesis by simp
qed

text \<open>
  Claim C6 as stated fails: with "red light" stored for kelly, \<^verbatim>\<open>createProtocol\<close>
  of "Red Light" for kelly returns a new id and leaves two active rows whose names are
  equal up to letter case.
\<close>

theorem case_insensitive_names_counterexample:
  "map p_name (protocols red_light_db) = [''red light''] \<and>
   fst (createProtocol 2 2000 capital_protocol red_light_db) = Inr 2 \<and>
   map p_id (protocols (snd (createProtocol 2 2000 capital_protocol red_light_db))) = [1, 2] \<and>
   map p_user_id (protocols (snd (createProtocol 2 2000 capital_protocol red_light_db))) =
     [''kelly'', ''kelly''] \<and>
   map p_name (protocols (snd (createProtocol 2 2000 capital_protocol red_light_db))) =
     [''red light'', ''Red Light''] \<and>
   map p_is_active (protocols (snd (createProtocol 2 2000 capital_protocol red_light_db))) =
     [True, True] \<and>
   map LOWER (map p_name (protocols (snd (createProtocol 2 2000 capital_protocol red_light_db)))) =
     [''red light'', ''red light'']"
  by code_simp

section \<open>The steps seen through a run\<close>

lemma run_join_map_protocols:
  assumes "\<And>p. p_id (f p) = p_id p"
  shows "run_join (s\<lparr>protocols := map f (protocols s)\<rparr>) =
           map (\<lambda>row. (fst row, f (snd row))) (run_join s)"
proof -
  have "filter (\<lambda>p. k = p_id p) (map f ps) = map f (filter (\<lambda>p. k = p_id p) ps)" for k ps
    by (simp add: filter_map comp_def assms)
  then show ?thesis
    by (simp add: run_join_def map_concat comp_def)
qed

lemma getActiveRun_map_protocols:
  assumes id: "\<And>p. p_id (f p) = p_id p"
    and run: "getActiveRun uid s = Some run"
  shows "\<exists>pr p. pr \<in> set (protocol_runs s) \<and> p \<in> set (protocols s) \<and>
           r_protocol_id pr = p_id p \<and> run = join_to_ProtocolRun (pr, p) \<and>
           getActiveRun uid (s\<lparr>protocols := map f (protocols s)\<rparr>) =
             Some (join_to_ProtocolRun (pr, f p))"
proof -
  let ?g = "\<lambda>row :: protocol_runs_row \<times> protocols_row. (fst row, f (snd row))"
  let ?Q = "\<lambda>row :: protocol_runs_row \<times> protocols_row.
              r_user_id (fst row) = uid \<and> r_status (fst row) = in_progress"
  let ?rows = "filter ?Q (run_join s)"
  from run obtain row rest where ord: "order_by started_before ?rows = row # rest"
    and r: "run = join_to_ProtocolRun row"
    by (auto simp: getActiveRun_def split: list.splits)
  have "row \<in> set (order_by started_before ?rows)" using ord by simp
  then have "row \<in> set ?rows" by (simp only: set_order_by)
  then have mem: "fst row \<in> set (protocol_runs s)" "snd row \<in> set (protocols s)"
    "r_protocol_id (fst row) = p_id (snd row)"
    by (auto simp: set_run_join)
  have "filter ?Q (map ?g (run_join s)) = map ?g ?rows"
    by (simp add: filter_map comp_def)
  moreover have "order_by started_before (map ?g ?rows) = map ?g (order_by started_before ?rows)"
    by (rule order_by_map) (simp add: started_before_def)
  ultimately have "order_by started_before
         (filter ?Q (run_join (s\<lparr>protocols := map f (protocols s)\<rparr>))) = ?g row # map ?g rest"
    using ord by (simp add: run_join_map_protocols [of f, OF id])
  then have "getActiveRun uid (s\<lparr>protocols := map f (protocols s)\<rparr>) =
               Some (join_to_ProtocolRun (fst row, f (snd row)))"
    by (simp add: getActiveRun_def)
  with mem r show ?thesis by (metis prod.collapse)
qed

text \<open>
  Claim C2, as the code has it.  A run row holds no copy of the steps, only
  \<^verbatim>\<open>protocol_id\<close>; \<^verbatim>\<open>getActiveRun\<close> takes the name and the steps from the row
  of \<^verbatim>\<open>protocols\<close> that the join finds at the time of the query.  So the steps seen
  through a run are the current steps of its definition, and after
  \<^verbatim>\<open>createProtocol\<close> has revised that definition, \<^verbatim>\<open>getActiveRun\<close> returns the
  same run with the new steps.
\<close>

theorem getActiveRun_reads_current_definition:
  "(\<forall>run. getActiveRun uid s = Some run \<longrightarrow>
      (\<exists>p\<in>set (protocols s). p_id p = protocolId run \<and>
         protocolName (metadata run) = p_name p \<and> steps_meta (metadata run) = p_steps p)) \<and>
   (schema_ok s \<and> getActiveRun uid s = Some run \<and>
    row \<in> set (protocols s) \<and> p_id row = protocolId run \<and>
    varchar 100 (userId protocol) = Some (p_user_id row) \<and>
    varchar 100 (name protocol) = Some (p_name row) \<and>
    sum_durations (steps protocol) = Some td \<and> int4 td \<longrightarrow>
      getActiveRun uid (snd (createProtocol newId now protocol s)) =
        Some (run\<lparr>metadata := \<lparr>protocolName = p_name row, steps_meta = steps protocol\<rparr>\<rparr>))"
proof (intro conjI allI impI)
  fix run assume "getActiveRun uid s = Some run"
  from getActiveRun_SomeD [OF this] obtain pr p
    where "p \<in> set (protocols s)" "r_protocol_id pr = p_id p" "run = join_to_ProtocolRun (pr, p)"
    by blast
  then show "\<exists>p\<in>set (protocols s). p_id p = protocolId run \<and>
         protocolName (metadata run) = p_name p \<and> steps_meta (metadata run) = p_steps p"
    by (auto simp: join_to_ProtocolRun_def)
next
  assume a: "schema_ok s \<and> getActiveRun uid s = Some run \<and>
    row \<in> set (protocols s) \<and> p_id row = protocolId run \<and>
    varchar 100 (userId protocol) = Some (p_user_id row) \<and>
    varchar 100 (name protocol) = Some (p_name row) \<and>
    sum_durations (steps protocol) = Some td \<and> int4 td"
  then have ok: "schema_ok s" and run: "getActiveRun uid s = Some run"
    and row: "row \<in> set (protocols s)" and id: "p_id row = protocolId run"
    and u: "varchar 100 (userId protocol) = Some (p_user_id row)"
    and n: "varchar 100 (name protocol) = Some (p_name row)"
    and t: "sum_durations (steps protocol) = Some td"
    and i: "int4 td"
    by simp_all
  let ?row' = "row\<lparr>p_description := or_null (description protocol),
                   p_steps := steps protocol,
                   p_total_duration := td,
                   p_tags := or_empty (tags protocol),
                   p_updated_at := now\<rparr>"
  let ?f = "\<lambda>r. if r = row then ?row' else r"
  have s': "snd (createProtocol newId now protocol s) = s\<lparr>protocols := map ?f (protocols s)\<rparr>"
    using createProtocol_on_existing [OF ok u n t i row, of newId now] by simp
  have keep: "p_id (?f p) = p_id p" for p by simp
  from getActiveRun_map_protocols [of ?f, OF keep run] obtain pr p
    where p: "p \<in> set (protocols s)" and fk: "r_protocol_id pr = p_id p"
      and r: "run = join_to_ProtocolRun (pr, p)"
      and after: "getActiveRun uid (s\<lparr>protocols := map ?f (protocols s)\<rparr>) =
                    Some (join_to_ProtocolRun (pr, ?f p))"
    by blast
  from r fk id have "p_id p = p_id row" by (simp add: join_to_ProtocolRun_def)
  from distinct_id_unique [OF ok row p this] have "p = row" .
  with after r show "getActiveRun uid (snd (createProtocol newId now protocol s)) =
        Some (run\<lparr>metadata := \<lparr>protocolName = p_name row, steps_meta = steps protocol\<rparr>\<rparr>)"
    by (simp add: s' join_to_ProtocolRun_def)
qed

theorem getActiveRun_reads_current_definition_witness:
  "schema_ok running_db \<and>
   map_option id_run (getActiveRun ''kelly'' running_db) = Some 10 \<and>
   map_option (steps_meta \<circ> metadata) (getActiveRun ''kelly'' running_db) = Some red_light_steps \<and>
   hd (protocols running_db) \<in> set (protocols running_db) \<and>
   Some (p_id (hd (protocols running_db))) = map_option protocolId (getActiveRun ''kelly'' running_db) \<and>
   varchar 100 (userId face_protocol) = Some (p_user_id (hd (protocols running_db))) \<and>
   varchar 100 (name face_protocol) = Some (p_name (hd (protocols running_db))) \<and>
   sum_durations (steps face_protocol) = Some 5 \<and>
   int4 5 \<and>
   map_option id_run (getActiveRun ''kelly'' (snd (createProtocol 2 5000 face_protocol running_db))) = Some 10 \<and>
   map_option (steps_meta \<circ> metadata)
     (getActiveRun ''kelly'' (snd (createProtocol 2 5000 face_protocol running_db))) =
     Some [mk_step ''face'' 5]"
proof -
  let ?row = "hd (protocols running_db)"
  have ok: "schema_ok running_db" by (rule examples_schema_ok)
  have a: "map_option id_run (getActiveRun ''kelly'' running_db) = Some 10" by code_simp
  have b: "map_option (steps_meta \<circ> metadata) (getActiveRun ''kelly'' running_db) = Some red_light_steps"
    by code_simp
  have single: "protocols running_db = [?row]" by code_simp
  then have row: "?row \<in> set (protocols running_db)" by (metis list.set_intros(1))
  have id: "Some (p_id ?row) = map_option protocolId (getActiveRun ''kelly'' running_db)" by code_simp
  have u: "varchar 100 (userId face_protocol) = Some (p_user_id ?row)" by code_simp
  have n: "varchar 100 (name face_protocol) = Some (p_name ?row)" by code_simp
  have t: "sum_durations (steps face_protocol) = Some 5" by code_simp
  have i: "int4 5" by (simp add: int4_def)
  have st: "steps face_protocol = [mk_step ''face'' 5]" by code_simp
  from a obtain run where run: "getActiveRun ''kelly'' running_db = Some run" and rid: "id_run run = 10"
    by auto
  from id run have id': "p_id ?row = protocolId run" by simp
  from getActiveRun_reads_current_definition
         [of "''kelly''" running_db run ?row face_protocol 5 2 5000] ok run row id' u n t i
  have after: "getActiveRun ''kelly'' (snd (createProtocol 2 5000 face_protocol running_db)) =
        Some (run\<lparr>metadata := \<lparr>protocolName = p_name ?row, steps_meta = steps face_protocol\<rparr>\<rparr>)"
    by blast
  from after rid st
  have c: "map_option id_run (getActiveRun ''kelly'' (snd (createProtocol 2 5000 face_protocol running_db))) = Some 10"
    and d: "map_option (steps_meta \<circ> metadata)
       (getActiveRun ''kelly'' (snd (createProtocol 2 5000 face_protocol running_db))) =
       Some [mk_step ''face'' 5]"
    by simp_all
  from ok a b row id u n t i c d show ?thesis by simp
qed

text \<open>
  Claim C2 as stated fails: run 10 was started from the four steps of "red light";
  after \<^verbatim>\<open>createProtocol\<close> has replaced them by one step, \<^verbatim>\<open>getActiveRun\<close>
  shows run 10 with that one step.
\<close>

theorem snapshot_isolation_counterexample:
  "map_option id_run (getActiveRun ''kelly'' running_db) = Some 10 \<and>
   map_option (steps_meta \<circ> metadata) (getActiveRun ''kelly'' running_db) = Some red_light_steps \<and>
   fst (createProtocol 2 5000 face_protocol running_db) = Inr 1 \<and>
   map_option id_run (getActiveRun ''kelly'' (snd (createProtocol 2 5000 face_protocol running_db))) =
     Some 10 \<and>
   map_option (steps_meta \<circ> metadata)
     (getActiveRun ''kelly'' (snd (createProtocol 2 5000 face_protocol running_db))) =
     Some [mk_step ''face'' 5]"
  by code_simp

end
